theory Spec2Isabelle
  imports Complex_Main "HOL-Library.Sublist"
begin

section \<open>Secret masking (airbyte\_cdk/utils/airbyte\_secrets\_utils.py)\<close>

text \<open>
  Python's \<^verbatim>\<open>str.replace(old, new)\<close>: the text is scanned from the left, every
  occurrence of \<^verbatim>\<open>old\<close> that does not overlap an earlier replaced one is replaced.
  An empty \<^verbatim>\<open>old\<close> matches before every character and at the end.
  Strings are lists of characters.
\<close>

function replace :: "'a list \<Rightarrow> 'a list \<Rightarrow> 'a list \<Rightarrow> 'a list" where
  "replace old new s =
     (if old = [] then new @ concat (map (\<lambda>c. c # new) s)
      else if s = [] then []
      else if prefix old s then new @ replace old new (drop (length old) s)
      else hd s # replace old new (tl s))"
  by pat_completeness auto
termination
  by (relation "measure (\<lambda>(old, new, s). length s)") auto

declare replace.simps [simp del]

text \<open>The fixed mask token written in place of a secret.\<close>

definition mask :: string where
  "mask = ''****''"

text \<open>
  \<^verbatim>\<open>filter_secrets\<close> walks the module-level list \<^verbatim>\<open>__SECRETS_FROM_CONFIG\<close> in
  registration order; the list is an explicit argument here. It is declared a list of
  strings, so \<^verbatim>\<open>str(secret)\<close> is the secret itself. A falsy (empty) secret is skipped
  by \<^verbatim>\<open>if secret\<close>.
\<close>

fun filter_secrets :: "string list \<Rightarrow> string \<Rightarrow> string" where
  "filter_secrets [] string = string"
| "filter_secrets (secret # secrets) string =
     filter_secrets secrets (if secret \<noteq> [] then replace secret mask string else string)"

text \<open>\<^verbatim>\<open>update_secrets\<close> replaces the registry, \<^verbatim>\<open>add_to_secrets\<close> appends to it.\<close>

definition update_secrets :: "string list \<Rightarrow> string list \<Rightarrow> string list" where
  "update_secrets secrets registry = secrets"

definition add_to_secrets :: "string \<Rightarrow> string list \<Rightarrow> string list" where
  "add_to_secrets secret registry = registry @ [secret]"

section \<open>Python values\<close>

text \<open>
  The values a template can evaluate to: the results of \<^verbatim>\<open>ast.literal_eval\<close> and plain
  strings (complex numbers are left out). A finite float is represented by the rational
  number it denotes, which is what Python's comparison between numbers looks at. A
  dictionary is its list of items, a set (or frozenset) its list of elements.
\<close>

datatype pyfloat = Finite rat | PosInf | NegInf | NaN

datatype pyval =
    PNone
  | PBool bool
  | PInt int
  | PFloat pyfloat
  | PStr string
  | PBytes string
  | PList "pyval list"
  | PTuple "pyval list"
  | PDict "(pyval \<times> pyval) list"
  | PSet "pyval list"

text \<open>The numeric value of a number; \<^verbatim>\<open>bool\<close> is a subclass of \<^verbatim>\<open>int\<close>.\<close>

fun num_of :: "pyval \<Rightarrow> pyfloat option" where
  "num_of (PBool b) = Some (Finite (if b then 1 else 0))"
| "num_of (PInt i) = Some (Finite (of_int i))"
| "num_of (PFloat f) = Some f"
| "num_of _ = None"

text \<open>
  Python's \<^verbatim>\<open>==\<close> on these values: numbers compare by value across \<^verbatim>\<open>bool\<close>,
  \<^verbatim>\<open>int\<close> and \<^verbatim>\<open>float\<close> (so \<^verbatim>\<open>0 == False\<close> and \<^verbatim>\<open>0.0 == False\<close>), NaN equals
  nothing, a string equals only the same string and bytes only the same bytes, sequences
  compare element by element within their own type, dictionaries and sets regardless of
  order, and \<^verbatim>\<open>None\<close> equals only itself.
\<close>

fun py_eq :: "pyval \<Rightarrow> pyval \<Rightarrow> bool" where
  "py_eq PNone y = (y = PNone)"
| "py_eq (PStr s) y = (y = PStr s)"
| "py_eq (PBytes b) y = (y = PBytes b)"
| "py_eq (PBool b) y =
     (case num_of y of Some f \<Rightarrow> f = Finite (if b then 1 else 0) | None \<Rightarrow> False)"
| "py_eq (PInt i) y =
     (case num_of y of Some f \<Rightarrow> f = Finite (of_int i) | None \<Rightarrow> False)"
| "py_eq (PFloat x) y =
     (case num_of y of Some f \<Rightarrow> x \<noteq> NaN \<and> f = x | None \<Rightarrow> False)"
| "py_eq (PList xs) y = (case y of PList ys \<Rightarrow> list_all2 py_eq xs ys | _ \<Rightarrow> False)"
| "py_eq (PTuple xs) y = (case y of PTuple ys \<Rightarrow> list_all2 py_eq xs ys | _ \<Rightarrow> False)"
| "py_eq (PDict xs) y =
     (case y of
        PDict ys \<Rightarrow>
          length xs = length ys \<and>
          (\<forall>(k, v) \<in> set xs. \<exists>(k', v') \<in> set ys. py_eq k k' \<and> py_eq v v')
      | _ \<Rightarrow> False)"
| "py_eq (PSet xs) y =
     (case y of
        PSet ys \<Rightarrow> length xs = length ys \<and> (\<forall>x \<in> set xs. \<exists>y \<in> set ys. py_eq x y)
      | _ \<Rightarrow> False)"

text \<open>Python's truth value, as \<^verbatim>\<open>if x\<close>, \<^verbatim>\<open>x and y\<close> and \<^verbatim>\<open>x or y\<close> test it.\<close>

fun truthy :: "pyval \<Rightarrow> bool" where
  "truthy PNone = False"
| "truthy (PBool b) = b"
| "truthy (PInt i) = (i \<noteq> 0)"
| "truthy (PFloat f) = (f \<noteq> Finite 0)"
| "truthy (PStr s) = (s \<noteq> [])"
| "truthy (PBytes b) = (b \<noteq> [])"
| "truthy (PList xs) = (xs \<noteq> [])"
| "truthy (PTuple xs) = (xs \<noteq> [])"
| "truthy (PDict xs) = (xs \<noteq> [])"
| "truthy (PSet xs) = (xs \<noteq> [])"

text \<open>\<^verbatim>\<open>x in xs\<close> for a list \<^verbatim>\<open>xs\<close>: some element equals \<^verbatim>\<open>x\<close>.\<close>

definition py_in :: "pyval \<Rightarrow> pyval list \<Rightarrow> bool" where
  "py_in x xs = list_ex (\<lambda>e. py_eq e x) xs"

section \<open>Exceptions\<close>

text \<open>
  Every \<^verbatim>\<open>raise\<close> of the sources is a value: a \<^verbatim>\<open>ValueError\<close> with a fixed message,
  a \<^verbatim>\<open>ValueError\<close> or \<^verbatim>\<open>Exception\<close> whose message is formatted from the offending value,
  \<^verbatim>\<open>StopIteration\<close> from \<^verbatim>\<open>next\<close>, and an exception raised inside a collaborator
  (decoder, template engine), given by its class name and text.
\<close>

datatype exception =
    ValueError string
  | ValueErrorOf pyval
  | ExceptionOf pyval
  | StopIteration
  | Raised string string

section \<open>Boolean interpolation
  (airbyte\_cdk/sources/declarative/interpolation/interpolated\_boolean.py)\<close>

definition FALSE_VALUES :: "pyval list" where
  "FALSE_VALUES =
     [PStr ''False'', PStr ''false'', PStr ''{}'', PStr ''[]'', PStr ''()'', PStr '''',
      PStr ''0'', PStr ''0.0'', PDict [], PBool False, PList [], PTuple [], PSet []]"

text \<open>
  The field \<^verbatim>\<open>condition\<close> is declared a string, and \<^verbatim>\<open>eval\<close> also accepts a bool.
  \<^verbatim>\<open>__post_init__\<close> fixes the default template \<^verbatim>\<open>"False"\<close>.
\<close>

datatype condition = CondBool bool | CondStr string

record 'par interpolated_boolean =
  condition :: condition
  ib_parameters :: 'par
  ib_default :: string

definition InterpolatedBoolean :: "condition \<Rightarrow> 'par \<Rightarrow> 'par interpolated_boolean" where
  "InterpolatedBoolean c parameters =
     \<lparr>condition = c, ib_parameters = parameters, ib_default = ''False''\<rparr>"

text \<open>
  \<^verbatim>\<open>JinjaInterpolation.eval(input_str, config, default, parameters=..., **kwargs)\<close> is
  a collaborator: it is the argument \<open>interpolation\<close>, and it returns a value or raises.
\<close>

type_synonym ('cfg, 'par, 'kw) interpolation =
  "string \<Rightarrow> 'cfg \<Rightarrow> string \<Rightarrow> 'par \<Rightarrow> 'kw \<Rightarrow> exception + pyval"

definition InterpolatedBoolean_eval ::
  "('cfg, 'par, 'kw) interpolation \<Rightarrow> 'par interpolated_boolean \<Rightarrow> 'cfg \<Rightarrow> 'kw \<Rightarrow>
   exception + bool" where
  "InterpolatedBoolean_eval interpolation self config additional_parameters =
     (case condition self of
        CondBool b \<Rightarrow> Inr b
      | CondStr s \<Rightarrow>
          (case interpolation s config (ib_default self) (ib_parameters self)
                  additional_parameters of
             Inl e \<Rightarrow> Inl e
           | Inr evaluated \<Rightarrow> if py_in evaluated FALSE_VALUES then Inr False else Inr True))"

text \<open>
  The falsy results in words: one of the eight listed strings, an empty dict, list, tuple
  or set, or a number equal to zero (\<^verbatim>\<open>False\<close>, \<^verbatim>\<open>0\<close>, \<^verbatim>\<open>0.0\<close>). \<^verbatim>\<open>None\<close> and
  empty bytes are not among them. This is the reading of the list that \<open>FALSE_VALUES\<close> is compared with below.
\<close>

definition falsy_result :: "pyval \<Rightarrow> bool" where
  "falsy_result v =
     (v \<in> {PStr ''False'', PStr ''false'', PStr ''{}'', PStr ''[]'', PStr ''()'', PStr '''',
            PStr ''0'', PStr ''0.0''}
      \<or> v \<in> {PDict [], PList [], PTuple [], PSet []}
      \<or> num_of v = Some (Finite 0))"

text \<open>
  A stand-in for the template engine in examples: every template evaluates to the given
  value.
\<close>

definition constant_interpolation :: "pyval \<Rightarrow> (unit, unit, unit) interpolation" where
  "constant_interpolation v template config default_template parameters kwargs = Inr v"

section \<open>Records and stream slices (airbyte\_cdk/sources/types.py)\<close>

text \<open>
  A \<^verbatim>\<open>dict\<close> with string keys is a map; two dicts are equal when they hold the same
  entries, whatever the insertion order. The values are of any type \<open>'v\<close>, whose equality
  stands for Python's \<^verbatim>\<open>==\<close> on them.

  The constituents \<^verbatim>\<open>partition\<close> and \<^verbatim>\<open>cursor_slice\<close> of a \<^verbatim>\<open>StreamSlice\<close> are
  mappings: a plain dict, or again a \<^verbatim>\<open>StreamSlice\<close> (which is a \<^verbatim>\<open>Mapping\<close>).
  The four fields are \<^verbatim>\<open>_partition\<close>, \<^verbatim>\<open>_cursor_slice\<close>, \<^verbatim>\<open>_extra_fields\<close> and
  \<^verbatim>\<open>_stream_slice\<close>.
\<close>

datatype 'v py_mapping = Dict "string \<rightharpoonup> 'v" | Slice "'v stream_slice"
and 'v stream_slice =
  StreamSlice
    (field_partition: "'v py_mapping")
    (field_cursor_slice: "'v py_mapping")
    (field_extra_fields: "string \<rightharpoonup> 'v")
    (field_stream_slice: "string \<rightharpoonup> 'v")

text \<open>
  \<^verbatim>\<open>dict(m)\<close> and \<^verbatim>\<open>m.keys()\<close>: a \<^verbatim>\<open>StreamSlice\<close> answers both from its merged
  mapping \<^verbatim>\<open>_stream_slice\<close>.
\<close>

fun dict :: "'v py_mapping \<Rightarrow> (string \<rightharpoonup> 'v)" where
  "dict (Dict m) = m"
| "dict (Slice s) = field_stream_slice s"

definition keys :: "'v py_mapping \<Rightarrow> string set" where
  "keys m = dom (dict m)"

text \<open>
  \<^verbatim>\<open>StreamSlice.__init__\<close>: \<^verbatim>\<open>extra_fields or {}\<close> turns \<^verbatim>\<open>None\<close> into the empty
  dict; overlapping keys raise; the merged mapping is
  \<^verbatim>\<open>dict(partition) | dict(cursor_slice)\<close>, where the right operand wins.
\<close>

definition StreamSlice_init ::
  "'v py_mapping \<Rightarrow> 'v py_mapping \<Rightarrow> (string \<rightharpoonup> 'v) option \<Rightarrow> exception + 'v stream_slice" where
  "StreamSlice_init partition' cursor_slice extra_fields =
     (if keys partition' \<inter> keys cursor_slice \<noteq> {}
      then Inl (ValueError ''Keys for partition and incremental sync cursor should not overlap'')
      else Inr (StreamSlice partition' cursor_slice
                  (case extra_fields of None \<Rightarrow> Map.empty | Some e \<Rightarrow> e)
                  (dict partition' ++ dict cursor_slice)))"

text \<open>
  The properties \<^verbatim>\<open>partition\<close> and \<^verbatim>\<open>cursor_slice\<close>: while the value at hand is a
  \<^verbatim>\<open>StreamSlice\<close>, it is replaced by that slice's own property, which is the same
  property again.
\<close>

fun StreamSlice_partition :: "'v stream_slice \<Rightarrow> (string \<rightharpoonup> 'v)"
  and while_partition :: "'v py_mapping \<Rightarrow> (string \<rightharpoonup> 'v)" where
  "StreamSlice_partition (StreamSlice p c e d) = while_partition p"
| "while_partition (Dict m) = m"
| "while_partition (Slice s) = StreamSlice_partition s"

fun StreamSlice_cursor_slice :: "'v stream_slice \<Rightarrow> (string \<rightharpoonup> 'v)"
  and while_cursor_slice :: "'v py_mapping \<Rightarrow> (string \<rightharpoonup> 'v)" where
  "StreamSlice_cursor_slice (StreamSlice p c e d) = while_cursor_slice c"
| "while_cursor_slice (Dict m) = m"
| "while_cursor_slice (Slice s) = StreamSlice_cursor_slice s"

definition StreamSlice_extra_fields :: "'v stream_slice \<Rightarrow> (string \<rightharpoonup> 'v)" where
  "StreamSlice_extra_fields s = field_extra_fields s"

text \<open>\<^verbatim>\<open>__setitem__\<close> always raises, \<^verbatim>\<open>__getitem__\<close> raises \<^verbatim>\<open>KeyError\<close> on a missing key.\<close>

definition StreamSlice_setitem :: "'v stream_slice \<Rightarrow> string \<Rightarrow> 'v \<Rightarrow> exception + unit" where
  "StreamSlice_setitem s key v = Inl (ValueError ''StreamSlice is immutable'')"

definition StreamSlice_getitem :: "'v stream_slice \<Rightarrow> string \<Rightarrow> exception + 'v" where
  "StreamSlice_getitem s key =
     (case field_stream_slice s key of None \<Rightarrow> Inl (Raised ''KeyError'' key) | Some v \<Rightarrow> Inr v)"

text \<open>
  \<^verbatim>\<open>Record\<close>: the data, taken to be a plain dict, and a reference to the slice that
  produced it.
\<close>

record 'v py_record =
  data :: "string \<rightharpoonup> 'v"
  associated_slice :: "'v stream_slice option"

text \<open>The objects a record or a slice is compared with.\<close>

datatype 'v py_object =
    ObjDict "string \<rightharpoonup> 'v"
  | ObjStreamSlice "'v stream_slice"
  | ObjRecord "'v py_record"
  | ObjOther pyval

text \<open>
  \<^verbatim>\<open>StreamSlice.__eq__\<close>. The comparisons \<^verbatim>\<open>self._partition == other._partition\<close> and
  \<^verbatim>\<open>self._cursor_slice == other._cursor_slice\<close> are Python's \<^verbatim>\<open>==\<close> on mappings
  (\<open>mapping_eq\<close>): dict equality between two dicts, this very method between two slices,
  and between a dict and a slice the slice's method with the dict as \<^verbatim>\<open>other\<close>
  (\<^verbatim>\<open>dict.__eq__\<close> returns \<^verbatim>\<open>NotImplemented\<close> for it, and Python then asks the slice).
\<close>

fun mapping_eq :: "'v py_mapping \<Rightarrow> 'v py_mapping \<Rightarrow> bool"
  and slice_eq :: "'v stream_slice \<Rightarrow> 'v stream_slice \<Rightarrow> bool" where
  "mapping_eq (Dict m) (Dict n) = (m = n)"
| "mapping_eq (Dict m) (Slice t) = (field_stream_slice t = m)"
| "mapping_eq (Slice s) (Dict n) = (field_stream_slice s = n)"
| "mapping_eq (Slice s) (Slice t) = slice_eq s t"
| "slice_eq (StreamSlice p c e d) (StreamSlice p' c' e' d') =
     (mapping_eq p p' \<and> mapping_eq c c')"

fun StreamSlice_eq :: "'v stream_slice \<Rightarrow> 'v py_object \<Rightarrow> bool" where
  "StreamSlice_eq self (ObjDict other) = (field_stream_slice self = other)"
| "StreamSlice_eq self (ObjStreamSlice other) = slice_eq self other"
| "StreamSlice_eq self _ = False"

definition StreamSlice_ne :: "'v stream_slice \<Rightarrow> 'v py_object \<Rightarrow> bool" where
  "StreamSlice_ne self other = (\<not> StreamSlice_eq self other)"

text \<open>\<^verbatim>\<open>Record.__eq__\<close> and \<^verbatim>\<open>Record.__ne__\<close>.\<close>

fun Record_eq :: "'v py_record \<Rightarrow> 'v py_object \<Rightarrow> bool" where
  "Record_eq self (ObjRecord other) = (data self = data other)"
| "Record_eq self _ = False"

definition Record_ne :: "'v py_record \<Rightarrow> 'v py_object \<Rightarrow> bool" where
  "Record_ne self other = (\<not> Record_eq self other)"

text \<open>
  The innermost mapping of a nested slice, as a relation: follow the partition
  (respectively cursor slice) constituent until it is a plain dict.
\<close>

inductive innermost_partition :: "'v stream_slice \<Rightarrow> (string \<rightharpoonup> 'v) \<Rightarrow> bool" where
  plain: "field_partition s = Dict m \<Longrightarrow> innermost_partition s m"
| nested: "field_partition s = Slice t \<Longrightarrow> innermost_partition t m \<Longrightarrow> innermost_partition s m"

code_pred innermost_partition .

inductive innermost_cursor_slice :: "'v stream_slice \<Rightarrow> (string \<rightharpoonup> 'v) \<Rightarrow> bool" where
  plain: "field_cursor_slice s = Dict m \<Longrightarrow> innermost_cursor_slice s m"
| nested: "field_cursor_slice s = Slice t \<Longrightarrow> innermost_cursor_slice t m \<Longrightarrow>
     innermost_cursor_slice s m"

code_pred innermost_cursor_slice .

text \<open>
  Example slices with nested constituents, each as \<open>StreamSlice_init\<close> builds it:
  \<^verbatim>\<open>inner_c1 = StreamSlice(partition={"a": 1}, cursor_slice={"c": 1})\<close>,
  \<^verbatim>\<open>inner_c2 = StreamSlice(partition={"a": 1}, cursor_slice={"c": 2})\<close>,
  \<^verbatim>\<open>outer_c1 = StreamSlice(partition=inner_c1, cursor_slice={})\<close> and likewise
  \<^verbatim>\<open>outer_c2\<close>; \<^verbatim>\<open>inner_ab = StreamSlice(partition={"a": 1}, cursor_slice={"b": 2})\<close>,
  \<^verbatim>\<open>outer_ab = StreamSlice(partition=inner_ab, cursor_slice={})\<close> and
  \<^verbatim>\<open>flat_ab = StreamSlice(partition={"a": 1, "b": 2}, cursor_slice={})\<close>.
\<close>

definition inner_c1 :: "int stream_slice" where
  "inner_c1 = StreamSlice (Dict [''a'' \<mapsto> 1]) (Dict [''c'' \<mapsto> 1]) Map.empty
                [''a'' \<mapsto> 1, ''c'' \<mapsto> 1]"

definition inner_c2 :: "int stream_slice" where
  "inner_c2 = StreamSlice (Dict [''a'' \<mapsto> 1]) (Dict [''c'' \<mapsto> 2]) Map.empty
                [''a'' \<mapsto> 1, ''c'' \<mapsto> 2]"

definition outer_c1 :: "int stream_slice" where
  "outer_c1 = StreamSlice (Slice inner_c1) (Dict Map.empty) Map.empty
                [''a'' \<mapsto> 1, ''c'' \<mapsto> 1]"

definition outer_c2 :: "int stream_slice" where
  "outer_c2 = StreamSlice (Slice inner_c2) (Dict Map.empty) Map.empty
                [''a'' \<mapsto> 1, ''c'' \<mapsto> 2]"

definition inner_ab :: "int stream_slice" where
  "inner_ab = StreamSlice (Dict [''a'' \<mapsto> 1]) (Dict [''b'' \<mapsto> 2]) Map.empty
                [''a'' \<mapsto> 1, ''b'' \<mapsto> 2]"

definition outer_ab :: "int stream_slice" where
  "outer_ab = StreamSlice (Slice inner_ab) (Dict Map.empty) Map.empty
                [''a'' \<mapsto> 1, ''b'' \<mapsto> 2]"

definition flat_ab :: "int stream_slice" where
  "flat_ab = StreamSlice (Dict [''a'' \<mapsto> 1, ''b'' \<mapsto> 2]) (Dict Map.empty) Map.empty
               [''a'' \<mapsto> 1, ''b'' \<mapsto> 2]"

section \<open>Pagination strategies\<close>

text \<open>
  \<^verbatim>\<open>InterpolatedString\<close> is a template with its parameters; its \<^verbatim>\<open>eval\<close> is a
  collaborator, the argument \<open>string_eval\<close> below: it takes the config and the keyword
  arguments of the call, if any, and returns a value or raises.
\<close>

record 'par interpolated_string =
  is_string :: string
  is_parameters :: 'par

type_synonym ('cfg, 'par, 'kw) string_eval =
  "'par interpolated_string \<Rightarrow> 'cfg \<Rightarrow> 'kw option \<Rightarrow> exception + pyval"

text \<open>A stand-in for it in examples: every template evaluates to the given value.\<close>

definition constant_string_eval :: "pyval \<Rightarrow> (unit, unit, unit) string_eval" where
  "constant_string_eval v template config kwargs = Inr v"

text \<open>\<^verbatim>\<open>isinstance(x, int)\<close>, with the integer; a \<^verbatim>\<open>bool\<close> is an \<^verbatim>\<open>int\<close>.\<close>

fun int_instance :: "pyval \<Rightarrow> int option" where
  "int_instance (PInt i) = Some i"
| "int_instance (PBool b) = Some (if b then 1 else 0)"
| "int_instance _ = None"

subsection \<open>PageIncrement
  (airbyte\_cdk/sources/declarative/requesters/paginators/strategies/page\_increment.py)\<close>

text \<open>The field \<^verbatim>\<open>page_size: str | int | None\<close>.\<close>

datatype page_size_arg = PageSizeInt int | PageSizeNone | PageSizeStr string

text \<open>
  The state of a \<^verbatim>\<open>PageIncrement\<close>: \<open>page\<close> is \<^verbatim>\<open>_page\<close> and \<open>resolved_page_size\<close> is
  \<^verbatim>\<open>_page_size\<close>.
\<close>

record 'cfg page_increment =
  pi_config :: 'cfg
  pi_page_size :: page_size_arg
  start_from_page :: int
  inject_on_first_request :: bool
  page :: int
  resolved_page_size :: "int option"

definition PageIncrement_init ::
  "('cfg, 'par, 'kw) string_eval \<Rightarrow> 'cfg \<Rightarrow> page_size_arg \<Rightarrow> 'par \<Rightarrow> int \<Rightarrow> bool \<Rightarrow>
   exception + 'cfg page_increment" where
  "PageIncrement_init string_eval config page_size parameters start inject =
     (let self = \<lparr>pi_config = config, pi_page_size = page_size, start_from_page = start,
                  inject_on_first_request = inject, page = start, resolved_page_size = None\<rparr>
      in case page_size of
           PageSizeInt n \<Rightarrow> Inr (self\<lparr>resolved_page_size := Some n\<rparr>)
         | PageSizeNone \<Rightarrow> Inr (self\<lparr>resolved_page_size := None\<rparr>)
         | PageSizeStr s \<Rightarrow>
             (case string_eval \<lparr>is_string = s, is_parameters = parameters\<rparr> config None of
                Inl e \<Rightarrow> Inl e
              | Inr v \<Rightarrow>
                  (case int_instance v of
                     None \<Rightarrow> Inl (ExceptionOf v)
                   | Some n \<Rightarrow> Inr (self\<lparr>resolved_page_size := Some n\<rparr>))))"

definition PageIncrement_initial_token :: "'cfg page_increment \<Rightarrow> int option" where
  "PageIncrement_initial_token self =
     (if inject_on_first_request self then Some (page self) else None)"

text \<open>
  \<^verbatim>\<open>next_page_token\<close> returns the token and the strategy with its page counter updated;
  the response and the last record are not looked at.
\<close>

definition PageIncrement_next_page_token ::
  "'cfg page_increment \<Rightarrow> 'resp \<Rightarrow> int \<Rightarrow> 'rec option \<Rightarrow> int option \<times> 'cfg page_increment" where
  "PageIncrement_next_page_token self response last_page_size last_record =
     (if (case resolved_page_size self of
            None \<Rightarrow> False
          | Some n \<Rightarrow> n \<noteq> 0 \<and> last_page_size < n) \<or> last_page_size = 0
      then (None, self)
      else (Some (page self + 1), self\<lparr>page := page self + 1\<rparr>))"

definition PageIncrement_reset ::
  "'cfg page_increment \<Rightarrow> pyval option \<Rightarrow> exception + 'cfg page_increment" where
  "PageIncrement_reset self reset_value =
     (case reset_value of
        None \<Rightarrow> Inr (self\<lparr>page := start_from_page self\<rparr>)
      | Some v \<Rightarrow>
          (case int_instance v of
             None \<Rightarrow> Inl (ValueErrorOf v)
           | Some n \<Rightarrow> Inr (self\<lparr>page := n\<rparr>)))"

definition PageIncrement_get_page_size :: "'cfg page_increment \<Rightarrow> int option" where
  "PageIncrement_get_page_size self = resolved_page_size self"

text \<open>
  Feeding a strategy the record counts of successive pages, one call of
  \<^verbatim>\<open>next_page_token\<close> per page: the tokens returned, and the strategy afterwards.
\<close>

fun feed_pages ::
  "'cfg page_increment \<Rightarrow> 'resp \<Rightarrow> int list \<Rightarrow> int option list \<times> 'cfg page_increment" where
  "feed_pages self response [] = ([], self)"
| "feed_pages self response (n # ns) =
     (case PageIncrement_next_page_token self response n (None :: unit option) of
        (token, self') \<Rightarrow>
          (case feed_pages self' response ns of
             (tokens, self'') \<Rightarrow> (token # tokens, self'')))"

subsection \<open>CursorPaginationStrategy
  (airbyte\_cdk/sources/declarative/requesters/paginators/strategies/cursor\_pagination\_strategy.py)\<close>

text \<open>
  What the strategy reads of a \<^verbatim>\<open>requests.Response\<close>: its headers, the parsed
  \<^verbatim>\<open>links\<close> and the content handed to the decoder.
\<close>

record 'b response =
  resp_headers :: "string \<rightharpoonup> pyval"
  resp_links :: pyval
  resp_content :: 'b

text \<open>The keyword arguments both templates are evaluated with.\<close>

record pagination_kwargs =
  kw_response :: pyval
  kw_headers :: "string \<rightharpoonup> pyval"
  kw_last_record :: "pyval py_record option"
  kw_last_page_size :: int

text \<open>
  The state of the strategy after \<^verbatim>\<open>__post_init__\<close>: \<open>cps_cursor_value\<close> is
  \<^verbatim>\<open>_cursor_value\<close>, \<open>cps_stop_condition\<close> is \<^verbatim>\<open>_stop_condition\<close>, \<open>initial_cursor\<close> is
  \<^verbatim>\<open>_initial_cursor\<close>. The decoder is a collaborator: \<^verbatim>\<open>decode\<close> yields the decoded
  values of a response, or raises.
\<close>

record ('cfg, 'par, 'b) cursor_pagination_strategy =
  cps_cursor_value :: "'par interpolated_string"
  cps_config :: 'cfg
  cps_page_size :: "int option"
  cps_stop_condition :: "'par interpolated_boolean option"
  decoder :: "'b response \<Rightarrow> exception + pyval list"
  initial_cursor :: "pyval option"

datatype 'par cursor_value_arg = CursorStr string | CursorInterpolated "'par interpolated_string"

datatype 'par stop_condition_arg =
  StopStr string | StopInterpolated "'par interpolated_boolean" | StopNone

definition CursorPaginationStrategy_init ::
  "'par cursor_value_arg \<Rightarrow> 'cfg \<Rightarrow> 'par \<Rightarrow> int option \<Rightarrow> 'par stop_condition_arg \<Rightarrow>
   ('b response \<Rightarrow> exception + pyval list) \<Rightarrow> ('cfg, 'par, 'b) cursor_pagination_strategy" where
  "CursorPaginationStrategy_init cursor_value config parameters page_size stop_condition dec =
     \<lparr>cps_cursor_value =
        (case cursor_value of
           CursorStr s \<Rightarrow> \<lparr>is_string = s, is_parameters = parameters\<rparr>
         | CursorInterpolated i \<Rightarrow> i),
      cps_config = config,
      cps_page_size = page_size,
      cps_stop_condition =
        (case stop_condition of
           StopStr s \<Rightarrow> Some (InterpolatedBoolean (CondStr s) parameters)
         | StopInterpolated b \<Rightarrow> Some b
         | StopNone \<Rightarrow> None),
      decoder = dec,
      initial_cursor = None\<rparr>"

definition CursorPaginationStrategy_initial_token ::
  "('cfg, 'par, 'b) cursor_pagination_strategy \<Rightarrow> pyval option" where
  "CursorPaginationStrategy_initial_token self = initial_cursor self"

text \<open>
  \<^verbatim>\<open>next(self.decoder.decode(response))\<close> raises \<^verbatim>\<open>StopIteration\<close> when nothing is
  decoded. An \<^verbatim>\<open>InterpolatedBoolean\<close> object is always truthy, so a configured stop
  condition is always evaluated. \<^verbatim>\<open>token or None\<close> gives \<^verbatim>\<open>None\<close> for a falsy token.
\<close>

definition CursorPaginationStrategy_next_page_token ::
  "('cfg, 'par, pagination_kwargs) interpolation \<Rightarrow> ('cfg, 'par, pagination_kwargs) string_eval \<Rightarrow>
   ('cfg, 'par, 'b) cursor_pagination_strategy \<Rightarrow> 'b response \<Rightarrow> int \<Rightarrow> pyval py_record option \<Rightarrow>
   exception + pyval option" where
  "CursorPaginationStrategy_next_page_token interpolation string_eval self response
     last_page_size last_record =
     (case decoder self response of
        Inl e \<Rightarrow> Inl e
      | Inr [] \<Rightarrow> Inl StopIteration
      | Inr (decoded_response # _) \<Rightarrow>
          (let headers = (resp_headers response)(''link'' \<mapsto> resp_links response);
               kwargs = \<lparr>kw_response = decoded_response, kw_headers = headers,
                         kw_last_record = last_record, kw_last_page_size = last_page_size\<rparr>
           in case (case cps_stop_condition self of
                      None \<Rightarrow> Inr False
                    | Some c \<Rightarrow> InterpolatedBoolean_eval interpolation c (cps_config self) kwargs) of
                Inl e \<Rightarrow> Inl e
              | Inr True \<Rightarrow> Inr None
              | Inr False \<Rightarrow>
                  (case string_eval (cps_cursor_value self) (cps_config self) (Some kwargs) of
                     Inl e \<Rightarrow> Inl e
                   | Inr token \<Rightarrow> Inr (if truthy token then Some token else None))))"

definition CursorPaginationStrategy_reset ::
  "('cfg, 'par, 'b) cursor_pagination_strategy \<Rightarrow> pyval option \<Rightarrow>
   ('cfg, 'par, 'b) cursor_pagination_strategy" where
  "CursorPaginationStrategy_reset self reset_value = self\<lparr>initial_cursor := reset_value\<rparr>"

definition CursorPaginationStrategy_get_page_size ::
  "('cfg, 'par, 'b) cursor_pagination_strategy \<Rightarrow> int option" where
  "CursorPaginationStrategy_get_page_size self = cps_page_size self"

section \<open>The bounded test read\<close>

text \<open>
  Modelled from the spec: the connector-builder handler (\<^verbatim>\<open>read_stream\<close>, the message
  grouping it drives and the limiting decorators) is not among the sources; only its
  tests are. The definitions of this section follow sections 3, 4.5, 6 and 7 of the
  specification. The three ceilings of a test read, already resolved, and their defaults.
\<close>

record test_read_limits =
  max_records :: nat
  max_slices :: nat
  max_pages_per_slice :: nat

definition default_limits :: test_read_limits where
  "default_limits = \<lparr>max_records = 100, max_slices = 5, max_pages_per_slice = 5\<rparr>"

text \<open>
  Modelled from the spec: the report shape of section 6. A log entry; a page with its
  records, the outbound request and the inbound response, if one was issued; a partition
  with its pages; the report with its log entries, its partitions and the limit flag.
  The auxiliary requests and the inferred payloads of the report are not modelled.
\<close>

record log_message =
  message :: string
  level :: string
  internal_message :: string
  stacktrace :: string

record ('rec, 'req, 'resp) stream_read_pages =
  pg_records :: "'rec list"
  pg_request :: 'req
  pg_response :: "'resp option"

record ('part, 'rec, 'req, 'resp) stream_read_slices =
  pages :: "('rec, 'req, 'resp) stream_read_pages list"
  slice_descriptor :: 'part

record ('part, 'rec, 'req, 'resp) stream_read =
  logs :: "log_message list"
  slices :: "('part, 'rec, 'req, 'resp) stream_read_slices list"
  test_read_limit_reached :: bool

text \<open>
  Modelled from the spec: the retrieval pipeline boundary of section 6, over an explicit
  state \<open>'st\<close> of the pipeline (transport, pagination strategy). \<open>list_partitions\<close>
  enumerates the partitions, \<open>reset_pagination\<close> is the reset at a partition boundary and
  gives the initial token, \<open>fetch_next_page\<close> fetches one page of one partition,
  \<open>next_page_token\<close> asks the pagination strategy about the page just fetched. Each of
  them but the reset may raise an exception of type \<open>'e\<close>.
\<close>

record ('part, 'tok, 'rec, 'req, 'resp, 'e, 'st) pipeline =
  list_partitions :: "'st \<Rightarrow> ('e + 'part list) \<times> 'st"
  reset_pagination :: "'st \<Rightarrow> 'tok option \<times> 'st"
  fetch_next_page ::
    "'part \<Rightarrow> 'tok option \<Rightarrow> 'st \<Rightarrow> ('e + ('rec, 'req, 'resp) stream_read_pages) \<times> 'st"
  next_page_token ::
    "('rec, 'req, 'resp) stream_read_pages \<Rightarrow> 'st \<Rightarrow> ('e + 'tok option) \<times> 'st"

text \<open>
  Modelled from the spec: what the orchestrator reads of a caught exception: its text,
  its formatted stack trace, and whether by section 7 it is fatal to the affected
  partition only (a configuration or parsing error), so that iteration continues with the
  next partition.
\<close>

record 'e error_rendering =
  exception_text :: "'e \<Rightarrow> string"
  format_stacktrace :: "'e \<Rightarrow> string"
  fatal_to_partition_only :: "'e \<Rightarrow> bool"

text \<open>
  Modelled from the spec: step 6 of section 4.5, the error-level log entry of a caught
  exception, with the registered secrets masked in every text.
\<close>

definition error_log_message :: "string list \<Rightarrow> 'e error_rendering \<Rightarrow> 'e \<Rightarrow> log_message" where
  "error_log_message secrets rendering e =
     \<lparr>message = filter_secrets secrets (exception_text rendering e),
      level = ''ERROR'',
      internal_message = filter_secrets secrets (exception_text rendering e),
      stacktrace = filter_secrets secrets (format_stacktrace rendering e)\<rparr>"

text \<open>
  Modelled from the spec: how the walk over the pages of one partition ends: the pages
  are done (no next token, or the page ceiling), the global record count has reached
  \<open>max_records\<close>, or the pipeline raised.
\<close>

datatype 'e walk_end = PagesDone | RecordLimitReached | Failed 'e

text \<open>
  Modelled from the spec: steps 2 to 4 of section 4.5 for one partition. At most \<open>n\<close>
  pages are fetched, in fetch order; after each page the global record count is compared
  with \<open>max_records\<close>; the walk of the partition ends when the strategy returns no token.
  The result is the pages, how the walk ended, the pipeline state and the record count.
\<close>

fun walk_pages ::
  "('part, 'tok, 'rec, 'req, 'resp, 'e, 'st) pipeline \<Rightarrow> test_read_limits \<Rightarrow> nat \<Rightarrow> 'part \<Rightarrow>
   'tok option \<Rightarrow> 'st \<Rightarrow> nat \<Rightarrow>
   ('rec, 'req, 'resp) stream_read_pages list \<times> 'e walk_end \<times> 'st \<times> nat" where
  "walk_pages P limits 0 part tok st count = ([], PagesDone, st, count)"
| "walk_pages P limits (Suc n) part tok st count =
     (case fetch_next_page P part tok st of
        (Inl e, st1) \<Rightarrow> ([], Failed e, st1, count)
      | (Inr pg, st1) \<Rightarrow>
          (let count1 = count + length (pg_records pg)
           in if max_records limits \<le> count1 then ([pg], RecordLimitReached, st1, count1)
              else
                (case next_page_token P pg st1 of
                   (Inl e, st2) \<Rightarrow> ([pg], Failed e, st2, count1)
                 | (Inr None, st2) \<Rightarrow> ([pg], PagesDone, st2, count1)
                 | (Inr (Some tok1), st2) \<Rightarrow>
                     (case walk_pages P limits n part (Some tok1) st2 count1 of
                        (pgs, ending, st3, count3) \<Rightarrow> (pg # pgs, ending, st3, count3)))))"

text \<open>
  Modelled from the spec: steps 3, 4 and 6 of section 4.5 and the failure semantics of
  section 7 over the partitions to explore. The result is the partitions read, the
  exceptions caught, in order, whether \<open>max_records\<close> was reached, and the pipeline state.
\<close>

fun walk_partitions ::
  "('part, 'tok, 'rec, 'req, 'resp, 'e, 'st) pipeline \<Rightarrow> 'e error_rendering \<Rightarrow> test_read_limits \<Rightarrow>
   'part list \<Rightarrow> 'st \<Rightarrow> nat \<Rightarrow>
   ('part, 'rec, 'req, 'resp) stream_read_slices list \<times> 'e list \<times> bool \<times> 'st" where
  "walk_partitions P rendering limits [] st count = ([], [], False, st)"
| "walk_partitions P rendering limits (part # parts) st count =
     (case reset_pagination P st of
        (tok, st1) \<Rightarrow>
          (case walk_pages P limits (max_pages_per_slice limits) part tok st1 count of
             (pgs, ending, st2, count2) \<Rightarrow>
               (let sl = \<lparr>pages = pgs, slice_descriptor = part\<rparr>
                in case ending of
                     RecordLimitReached \<Rightarrow> ([sl], [], True, st2)
                   | Failed e \<Rightarrow>
                       (if fatal_to_partition_only rendering e
                        then (case walk_partitions P rendering limits parts st2 count2 of
                                (sls, es, reached, st3) \<Rightarrow> (sl # sls, e # es, reached, st3))
                        else ([sl], [e], False, st2))
                   | PagesDone \<Rightarrow>
                       (case walk_partitions P rendering limits parts st2 count2 of
                          (sls, es, reached, st3) \<Rightarrow> (sl # sls, es, reached, st3)))))"

text \<open>
  Modelled from the spec: the orchestrator of section 4.5, with the pipeline state it
  ends in. It returns a report whatever the pipeline does: an exception of
  \<open>list_partitions\<close> gives a report with no partition and one error entry; otherwise the
  first \<open>max_slices\<close> partitions are walked and every caught exception becomes an error
  entry.
\<close>

definition run_read ::
  "string list \<Rightarrow> 'e error_rendering \<Rightarrow> test_read_limits \<Rightarrow>
   ('part, 'tok, 'rec, 'req, 'resp, 'e, 'st) pipeline \<Rightarrow> 'st \<Rightarrow>
   ('part, 'rec, 'req, 'resp) stream_read \<times> 'st" where
  "run_read secrets rendering limits P st =
     (case list_partitions P st of
        (Inl e, st1) \<Rightarrow>
          (\<lparr>logs = [error_log_message secrets rendering e], slices = [],
            test_read_limit_reached = False\<rparr>, st1)
      | (Inr parts, st1) \<Rightarrow>
          (case walk_partitions P rendering limits (take (max_slices limits) parts) st1 0 of
             (sls, es, reached, st2) \<Rightarrow>
               (\<lparr>logs = map (error_log_message secrets rendering) es, slices = sls,
                 test_read_limit_reached = reached\<rparr>, st2)))"

text \<open>
  Modelled from the spec: \<^verbatim>\<open>read_stream\<close>, the report of the orchestrator.
\<close>

definition read_stream ::
  "string list \<Rightarrow> 'e error_rendering \<Rightarrow> test_read_limits \<Rightarrow>
   ('part, 'tok, 'rec, 'req, 'resp, 'e, 'st) pipeline \<Rightarrow> 'st \<Rightarrow>
   ('part, 'rec, 'req, 'resp) stream_read" where
  "read_stream secrets rendering limits P st = fst (run_read secrets rendering limits P st)"

subsection \<open>Observing a pipeline\<close>

text \<open>
  What a pipeline did during a read, noted by the pipeline itself and out of the
  orchestrator's reach: the exceptions it raised, in order, and for every partition whose
  pagination was reset, in order, the number of pages fetched for it.
\<close>

record 'e pipeline_trace =
  raised :: "'e list"
  fetches :: "nat list"

definition empty_trace :: "'e pipeline_trace" where
  "empty_trace = \<lparr>raised = [], fetches = []\<rparr>"

definition note_result :: "'e + 'a \<Rightarrow> 'e pipeline_trace \<Rightarrow> 'e pipeline_trace" where
  "note_result r tr = (case r of Inl e \<Rightarrow> tr\<lparr>raised := raised tr @ [e]\<rparr> | Inr x \<Rightarrow> tr)"

definition note_partition :: "'e pipeline_trace \<Rightarrow> 'e pipeline_trace" where
  "note_partition tr = tr\<lparr>fetches := fetches tr @ [0]\<rparr>"

definition note_fetch :: "'e pipeline_trace \<Rightarrow> 'e pipeline_trace" where
  "note_fetch tr =
     tr\<lparr>fetches := (if fetches tr = [] then [1]
                      else butlast (fetches tr) @ [Suc (last (fetches tr))])\<rparr>"

text \<open>
  The same pipeline keeping its trace beside its state: every call does what the
  pipeline's does and notes it.
\<close>

definition traced ::
  "('part, 'tok, 'rec, 'req, 'resp, 'e, 'st) pipeline \<Rightarrow>
   ('part, 'tok, 'rec, 'req, 'resp, 'e, 'st \<times> 'e pipeline_trace) pipeline" where
  "traced P =
     \<lparr>list_partitions = (\<lambda>s.
        case list_partitions P (fst s) of (r, st1) \<Rightarrow> (r, (st1, note_result r (snd s)))),
      reset_pagination = (\<lambda>s.
        case reset_pagination P (fst s) of (tok, st1) \<Rightarrow> (tok, (st1, note_partition (snd s)))),
      fetch_next_page = (\<lambda>part tok s.
        case fetch_next_page P part tok (fst s) of
          (r, st1) \<Rightarrow> (r, (st1, note_result r (note_fetch (snd s))))),
      next_page_token = (\<lambda>pg s.
        case next_page_token P pg (fst s) of (r, st1) \<Rightarrow> (r, (st1, note_result r (snd s))))\<rparr>"

text \<open>The trace of a whole read, from an empty trace.\<close>

definition read_trace ::
  "string list \<Rightarrow> 'e error_rendering \<Rightarrow> test_read_limits \<Rightarrow>
   ('part, 'tok, 'rec, 'req, 'resp, 'e, 'st) pipeline \<Rightarrow> 'st \<Rightarrow> 'e pipeline_trace" where
  "read_trace secrets rendering limits P st =
     snd (snd (run_read secrets rendering limits (traced P) (st, empty_trace)))"

text \<open>
  What a walk over the pages of one partition may add to a trace: the exception it ended
  with, if any, and at most \<open>n\<close> fetches for the partition at hand.
\<close>

definition pages_trace_ok ::
  "nat \<Rightarrow> 'e pipeline_trace \<Rightarrow> 'e walk_end \<Rightarrow> 'e pipeline_trace \<Rightarrow> bool" where
  "pages_trace_ok n tr ending tr' \<longleftrightarrow>
     raised tr' = raised tr @ (case ending of Failed e \<Rightarrow> [e] | _ \<Rightarrow> []) \<and>
     fetches tr' \<noteq> [] \<and>
     butlast (fetches tr') = butlast (fetches tr) \<and>
     last (fetches tr') \<le> last (fetches tr) + n"

subsection \<open>The report as text\<close>

text \<open>
  Modelled from the spec: the texts of a report that are rendered for a reader, which are
  the ones masked: the message, internal message and stack trace of every log entry.
\<close>

definition report_texts :: "('part, 'rec, 'req, 'resp) stream_read \<Rightarrow> string list" where
  "report_texts report =
     concat (map (\<lambda>l. [message l, internal_message l, stacktrace l]) (logs report))"

text \<open>
  Modelled from the spec: the report of section 6 serialized as JSON, whole: the log
  entries, the partitions with their pages (records, request, response) and the limit
  flag. A string is written between double quotes, with a backslash before a double quote
  and before a backslash. How a partition descriptor, a record, a request and a response
  are written is given by the four arguments.
\<close>

definition json_string :: "string \<Rightarrow> string" where
  "json_string s =
     [CHR 0x22] @
     concat (map (\<lambda>c. if c = CHR 0x22 \<or> c = CHR 0x5C then [CHR 0x5C, c] else [c]) s) @
     [CHR 0x22]"

fun json_items :: "string list \<Rightarrow> string" where
  "json_items [] = []"
| "json_items [x] = x"
| "json_items (x # y # ys) = x @ '', '' @ json_items (y # ys)"

definition json_array :: "string list \<Rightarrow> string" where
  "json_array xs = ''['' @ json_items xs @ '']''"

definition json_object :: "(string \<times> string) list \<Rightarrow> string" where
  "json_object members =
     ''{'' @ json_items (map (\<lambda>(k, v). json_string k @ '': '' @ v) members) @ ''}''"

definition serialize_log :: "log_message \<Rightarrow> string" where
  "serialize_log l =
     json_object [(''message'', json_string (message l)), (''level'', json_string (level l)),
                  (''internal_message'', json_string (internal_message l)),
                  (''stacktrace'', json_string (stacktrace l))]"

definition serialize_page ::
  "('rec \<Rightarrow> string) \<Rightarrow> ('req \<Rightarrow> string) \<Rightarrow> ('resp \<Rightarrow> string) \<Rightarrow>
   ('rec, 'req, 'resp) stream_read_pages \<Rightarrow> string" where
  "serialize_page of_record of_request of_response pg =
     json_object [(''records'', json_array (map of_record (pg_records pg))),
                  (''request'', of_request (pg_request pg)),
                  (''response'', (case pg_response pg of None \<Rightarrow> ''null''
                                                         | Some r \<Rightarrow> of_response r))]"

definition serialize_report ::
  "('part \<Rightarrow> string) \<Rightarrow> ('rec \<Rightarrow> string) \<Rightarrow> ('req \<Rightarrow> string) \<Rightarrow> ('resp \<Rightarrow> string) \<Rightarrow>
   ('part, 'rec, 'req, 'resp) stream_read \<Rightarrow> string" where
  "serialize_report of_partition of_record of_request of_response report =
     json_object
       [(''logs'', json_array (map serialize_log (logs report))),
        (''slices'', json_array (map (\<lambda>sl.
            json_object
              [(''pages'', json_array
                  (map (serialize_page of_record of_request of_response) (pages sl))),
               (''slice_descriptor'', of_partition (slice_descriptor sl))]) (slices report))),
        (''test_read_limit_reached'',
           (if test_read_limit_reached report then ''true'' else ''false''))]"

section \<open>The fixture of the bounded read test
  (unit\_tests/connector\_builder/test\_connector\_builder\_handler.py)\<close>

text \<open>Looking a string key up in a decoded JSON object.\<close>

fun py_get :: "pyval \<Rightarrow> string \<Rightarrow> pyval option" where
  "py_get (PDict items) k = map_of items (PStr k)"
| "py_get _ k = None"

text \<open>The entries of a decoded JSON object, as the data of a record.\<close>

fun dict_of_items :: "(pyval \<times> pyval) list \<Rightarrow> (string \<rightharpoonup> pyval)" where
  "dict_of_items [] = Map.empty"
| "dict_of_items ((PStr k, v) # items) = (dict_of_items items)(k \<mapsto> v)"
| "dict_of_items (_ # items) = dict_of_items items"

text \<open>
  The two response bodies of \<^verbatim>\<open>test_read_source\<close>, decoded: a page of two records and
  a page of one record, both with \<^verbatim>\<open>_metadata.next\<close> set.
\<close>

definition two_record_body :: pyval where
  "two_record_body =
     PDict [(PStr ''result'', PList [PDict [(PStr ''id'', PInt 0)], PDict [(PStr ''id'', PInt 1)]]),
            (PStr ''_metadata'', PDict [(PStr ''next'', PStr ''next'')])]"

definition one_record_body :: pyval where
  "one_record_body =
     PDict [(PStr ''result'', PList [PDict [(PStr ''id'', PInt 2)]]),
            (PStr ''_metadata'', PDict [(PStr ''next'', PStr ''next'')])]"

text \<open>
  The patched \<^verbatim>\<open>requests.Session.send\<close>: its side effect is the pair of responses ten
  times over, and the mock raises \<^verbatim>\<open>StopIteration\<close> once they are used up. The state of
  the pipeline is the number of responses served so far.
\<close>

definition page_response :: "pyval \<Rightarrow> pyval response" where
  "page_response body =
     \<lparr>resp_headers = [''Content-Type'' \<mapsto> PStr ''application/json''],
      resp_links = PDict [], resp_content = body\<rparr>"

definition fixture_send :: "nat \<Rightarrow> exception + pyval response" where
  "fixture_send k =
     (if k < 20
      then Inr (page_response (if even k then two_record_body else one_record_body))
      else Inl StopIteration)"

text \<open>
  The partitions of the manifest's \<^verbatim>\<open>ListPartitionRouter\<close>: the values \<^verbatim>\<open>"0"\<close> to
  \<^verbatim>\<open>"7"\<close> under the cursor field \<^verbatim>\<open>item_id\<close>.
\<close>

definition fixture_partitions :: "pyval stream_slice list" where
  "fixture_partitions =
     map (\<lambda>v. StreamSlice (Dict [''item_id'' \<mapsto> PStr v]) (Dict Map.empty) Map.empty
                 [''item_id'' \<mapsto> PStr v])
       [''0'', ''1'', ''2'', ''3'', ''4'', ''5'', ''6'', ''7'']"

text \<open>
  The manifest's pagination strategy: \<^verbatim>\<open>CursorPagination\<close> with the cursor value
  \<^verbatim>\<open>{{ response._metadata.next }}\<close>, page size 2 and no stop condition; the decoder
  yields the decoded body. \<open>fixture_string_eval\<close> is the value of that one template: the
  entry \<^verbatim>\<open>next\<close> of the entry \<^verbatim>\<open>_metadata\<close> of the response, \<^verbatim>\<open>None\<close> when missing.
  \<open>fixture_interpolation\<close> evaluates a condition template to \<^verbatim>\<open>True\<close>; the manifest has
  none.
\<close>

definition fixture_decoder :: "pyval response \<Rightarrow> exception + pyval list" where
  "fixture_decoder r = Inr [resp_content r]"

definition fixture_strategy :: "(unit, unit, pyval) cursor_pagination_strategy" where
  "fixture_strategy =
     CursorPaginationStrategy_init (CursorStr ''{{ response._metadata.next }}'') () ()
       (Some 2) StopNone fixture_decoder"

text \<open>The same strategy with a stop condition, the template \<^verbatim>\<open>{{ True }}\<close>.\<close>

definition stopping_strategy :: "(unit, unit, pyval) cursor_pagination_strategy" where
  "stopping_strategy =
     CursorPaginationStrategy_init (CursorStr ''{{ response._metadata.next }}'') () ()
       (Some 2) (StopStr ''{{ True }}'') fixture_decoder"

definition fixture_string_eval :: "(unit, unit, pagination_kwargs) string_eval" where
  "fixture_string_eval template config kwargs =
     (case kwargs of
        None \<Rightarrow> Inr PNone
      | Some kw \<Rightarrow>
          (case py_get (kw_response kw) ''_metadata'' of
             None \<Rightarrow> Inr PNone
           | Some metadata \<Rightarrow>
               (case py_get metadata ''next'' of None \<Rightarrow> Inr PNone | Some v \<Rightarrow> Inr v)))"

definition fixture_interpolation :: "(unit, unit, pagination_kwargs) interpolation" where
  "fixture_interpolation template config default_template parameters kwargs = Inr (PBool True)"

text \<open>
  The record selector extracts the list under \<^verbatim>\<open>result\<close>; each entry becomes a record
  of the partition being read.
\<close>

definition fixture_records :: "pyval stream_slice \<Rightarrow> pyval \<Rightarrow> pyval py_record list" where
  "fixture_records part body =
     (case py_get body ''result'' of
        Some (PList entries) \<Rightarrow>
          map (\<lambda>entry. \<lparr>data = (case entry of PDict items \<Rightarrow> dict_of_items items
                                             | _ \<Rightarrow> Map.empty),
                         associated_slice = Some part\<rparr>) entries
      | _ \<Rightarrow> [])"

text \<open>
  The pipeline of the test over given partitions: the request of a page is the partition
  with the page token; no initial token; the next token is the strategy's. The test's own
  pipeline is the one over the manifest's eight partitions.
\<close>

definition fixture_pipeline_for ::
  "pyval stream_slice list \<Rightarrow>
   (pyval stream_slice, pyval, pyval py_record, pyval stream_slice \<times> pyval option,
    pyval response, exception, nat) pipeline" where
  "fixture_pipeline_for parts =
     \<lparr>list_partitions = (\<lambda>k. (Inr parts, k)),
      reset_pagination = (\<lambda>k. (CursorPaginationStrategy_initial_token
                                  (CursorPaginationStrategy_reset fixture_strategy None), k)),
      fetch_next_page = (\<lambda>part tok k.
         case fixture_send k of
           Inl e \<Rightarrow> (Inl e, k)
         | Inr r \<Rightarrow>
             (Inr \<lparr>pg_records = fixture_records part (resp_content r),
                   pg_request = (part, tok), pg_response = Some r\<rparr>, Suc k)),
      next_page_token = (\<lambda>pg k.
         case pg_response pg of
           None \<Rightarrow> (Inr None, k)
         | Some r \<Rightarrow>
             (CursorPaginationStrategy_next_page_token fixture_interpolation fixture_string_eval
                fixture_strategy r (int (length (pg_records pg)))
                (if pg_records pg = [] then None else Some (last (pg_records pg))), k))\<rparr>"

definition fixture_pipeline ::
  "(pyval stream_slice, pyval, pyval py_record, pyval stream_slice \<times> pyval option,
    pyval response, exception, nat) pipeline" where
  "fixture_pipeline = fixture_pipeline_for fixture_partitions"

text \<open>The text and trace of an exception of the sources, for the log.\<close>

fun exception_message :: "exception \<Rightarrow> string" where
  "exception_message (ValueError msg) = msg"
| "exception_message (Raised cls msg) = msg"
| "exception_message _ = ''''"

definition fixture_rendering :: "exception error_rendering" where
  "fixture_rendering =
     \<lparr>exception_text = exception_message, format_stacktrace = exception_message,
      fatal_to_partition_only = (\<lambda>e. False)\<rparr>"

definition fixture_limits :: test_read_limits where
  "fixture_limits = \<lparr>max_records = 100, max_slices = 3, max_pages_per_slice = 2\<rparr>"

text \<open>A pipeline whose read raises at once, with the given text.\<close>

definition failing_pipeline ::
  "string \<Rightarrow> (unit, unit, unit, unit, unit, exception, unit) pipeline" where
  "failing_pipeline msg =
     \<lparr>list_partitions = (\<lambda>st. (Inl (Raised ''ValueError'' msg), st)),
      reset_pagination = (\<lambda>st. (None, st)),
      fetch_next_page = (\<lambda>part tok st. (Inl (Raised ''ValueError'' msg), st)),
      next_page_token = (\<lambda>pg st. (Inr None, st))\<rparr>"

text \<open>
  A pipeline of one partition whose first page holds one record, the given text, and
  whose second fetch raises with the given message.
\<close>

definition leaking_pipeline ::
  "string \<Rightarrow> string \<Rightarrow> (string, unit, string, string, string, exception, nat) pipeline" where
  "leaking_pipeline payload msg =
     \<lparr>list_partitions = (\<lambda>k. (Inr [''p0''], k)),
      reset_pagination = (\<lambda>k. (None, k)),
      fetch_next_page = (\<lambda>part tok k.
         if k = 0
         then (Inr \<lparr>pg_records = [payload], pg_request = ''GET /items'',
                    pg_response = Some payload\<rparr>, Suc k)
         else (Inl (Raised ''ValueError'' msg), k)),
      next_page_token = (\<lambda>pg k. (Inr (Some ()), k))\<rparr>"

text \<open>Writing a value of no interest as JSON.\<close>

definition json_null :: "'a \<Rightarrow> string" where
  "json_null x = ''null''"
section \<open>Facts about secret masking\<close>

lemma replace_Nil [simp]: "old \<noteq> [] \<Longrightarrow> replace old new [] = []"
  by (simp add: replace.simps)

lemma replace_prefix:
  "old \<noteq> [] \<Longrightarrow> prefix old s \<Longrightarrow>
   replace old new s = new @ replace old new (drop (length old) s)"
  by (subst replace.simps) (auto simp: prefix_def)

lemma replace_no_prefix:
  "old \<noteq> [] \<Longrightarrow> \<not> prefix old (c # cs) \<Longrightarrow>
   replace old new (c # cs) = c # replace old new cs"
  by (subst replace.simps) simp

lemma sublist_Cons_iff: "sublist xs (y # ys) \<longleftrightarrow> prefix xs (y # ys) \<or> sublist xs ys"
  by (simp add: sublist_Cons_right)

lemma replace_absent:
  "old \<noteq> [] \<Longrightarrow> \<not> sublist old s \<Longrightarrow> replace old new s = s"
proof (induction s)
  case Nil
  then show ?case by simp
next
  case (Cons c cs)
  from Cons.prems have np: "\<not> prefix old (c # cs)" and ns: "\<not> sublist old cs"
    by (auto simp: sublist_Cons_iff)
  with Cons show ?case
    by (simp add: replace_no_prefix)
qed

lemma prefix_replace_clean:
  "old \<noteq> [] \<Longrightarrow> new \<noteq> [] \<Longrightarrow> set u \<inter> set new = {} \<Longrightarrow>
   prefix u (replace old new t) \<Longrightarrow> prefix u t"
proof (induction t arbitrary: u rule: length_induct)
  case (1 t)
  show ?case
  proof (cases u)
    case Nil
    then show ?thesis by simp
  next
    case (Cons a u')
    show ?thesis
    proof (cases "prefix old t")
      case True
      with 1 have "prefix (a # u') (new @ replace old new (drop (length old) t))"
        by (simp add: replace_prefix Cons)
      moreover from 1(4) Cons have "a \<notin> set new" by auto
      ultimately show ?thesis using \<open>new \<noteq> []\<close>
        by (cases new) (auto simp: prefix_Cons)
    next
      case False
      show ?thesis
      proof (cases t)
        case Nil
        with 1 Cons show ?thesis by simp
      next
        case (Cons c cs)
        with False 1 have r: "replace old new t = c # replace old new cs"
          by (simp add: replace_no_prefix)
        from 1(5) r \<open>u = a # u'\<close> have "a = c" and p: "prefix u' (replace old new cs)"
          by auto
        from 1(4) \<open>u = a # u'\<close> have "set u' \<inter> set new = {}" by auto
        with 1 p Cons have "prefix u' cs" by auto
        with \<open>a = c\<close> Cons \<open>u = a # u'\<close> show ?thesis by simp
      qed
    qed
  qed
qed

lemma sublist_mask_append:
  assumes "s \<noteq> []" "set s \<inter> set m = {}" "sublist s (m @ r)"
  shows "sublist s r"
  using assms
proof (induction m)
  case Nil
  then show ?case by simp
next
  case (Cons a m)
  from Cons.prems have "prefix s (a # m @ r) \<or> sublist s (m @ r)"
    by (simp add: sublist_Cons_iff)
  moreover have "\<not> prefix s (a # m @ r)"
    using Cons.prems by (cases s) auto
  ultimately show ?case using Cons by auto
qed

lemma replace_keeps_absent:
  "old \<noteq> [] \<Longrightarrow> new \<noteq> [] \<Longrightarrow> s \<noteq> [] \<Longrightarrow> set s \<inter> set new = {} \<Longrightarrow>
   \<not> sublist s t \<Longrightarrow> \<not> sublist s (replace old new t)"
proof (induction t rule: length_induct)
  case (1 t)
  show ?case
  proof (cases "prefix old t")
    case True
    then obtain t' where t: "t = old @ t'" by (auto simp: prefix_def)
    have "\<not> sublist s t'" using 1(6) t by (auto simp: sublist_append)
    moreover have "length t' < length t" using t 1(2) by simp
    ultimately have "\<not> sublist s (replace old new t')" using 1 by blast
    then have "\<not> sublist s (new @ replace old new t')"
      using sublist_mask_append [OF 1(4) 1(5)] by blast
    then show ?thesis using True 1(2) t by (simp add: replace_prefix)
  next
    case False
    show ?thesis
    proof (cases t)
      case Nil
      with 1 show ?thesis by simp
    next
      case (Cons c cs)
      with False 1 have r: "replace old new t = c # replace old new cs"
        by (simp add: replace_no_prefix)
      have "\<not> sublist s cs" using 1(6) Cons by (simp add: sublist_Cons_iff)
      then have a: "\<not> sublist s (replace old new cs)" using 1 Cons by auto
      have b: "\<not> prefix s (replace old new t)"
        using prefix_replace_clean [OF 1(2) 1(3) 1(5)] 1(6) by (auto dest: prefix_imp_sublist)
      from a b r show ?thesis by (simp add: sublist_Cons_iff)
    qed
  qed
qed

lemma replace_removes:
  "s \<noteq> [] \<Longrightarrow> new \<noteq> [] \<Longrightarrow> set s \<inter> set new = {} \<Longrightarrow> \<not> sublist s (replace s new t)"
proof (induction t rule: length_induct)
  case (1 t)
  show ?case
  proof (cases "prefix s t")
    case True
    then obtain t' where t: "t = s @ t'" by (auto simp: prefix_def)
    have "length t' < length t" using t 1(2) by simp
    then have "\<not> sublist s (replace s new t')" using 1 by blast
    then have "\<not> sublist s (new @ replace s new t')"
      using sublist_mask_append [OF 1(2) 1(4)] by blast
    then show ?thesis using True 1(2) t by (simp add: replace_prefix)
  next
    case False
    show ?thesis
    proof (cases t)
      case Nil
      with 1 show ?thesis by simp
    next
      case (Cons c cs)
      with False 1 have r: "replace s new t = c # replace s new cs"
        by (simp add: replace_no_prefix)
      have a: "\<not> sublist s (replace s new cs)" using 1 Cons by auto
      have b: "\<not> prefix s (replace s new t)"
        using prefix_replace_clean [OF 1(2) 1(3) 1(4)] False by auto
      from a b r show ?thesis by (simp add: sublist_Cons_iff)
    qed
  qed
qed

lemma filter_secrets_keeps_absent:
  "s \<noteq> [] \<Longrightarrow> CHR ''*'' \<notin> set s \<Longrightarrow> \<not> sublist s t \<Longrightarrow> \<not> sublist s (filter_secrets secrets t)"
proof (induction secrets arbitrary: t)
  case Nil
  then show ?case by simp
next
  case (Cons x xs)
  have "\<not> sublist s (replace x mask t)" if "x \<noteq> []"
    using replace_keeps_absent [OF that, of mask s t] Cons.prems by (simp add: mask_def)
  with Cons show ?case by simp
qed

lemma filter_secrets_removes:
  "s \<in> set secrets \<Longrightarrow> s \<noteq> [] \<Longrightarrow> CHR ''*'' \<notin> set s \<Longrightarrow> \<not> sublist s (filter_secrets secrets t)"
proof (induction secrets arbitrary: t)
  case Nil
  then show ?case by simp
next
  case (Cons x xs)
  show ?case
  proof (cases "s = x")
    case True
    have "\<not> sublist s (replace s mask t)"
      using replace_removes [of s mask t] Cons.prems by (simp add: mask_def)
    then show ?thesis using True Cons.prems
      by (simp add: filter_secrets_keeps_absent)
  next
    case False
    with Cons show ?thesis by simp
  qed
qed

lemma filter_secrets_absent:
  "\<forall>x \<in> set secrets. x \<noteq> [] \<longrightarrow> \<not> sublist x t \<Longrightarrow> filter_secrets secrets t = t"
  by (induction secrets arbitrary: t) (auto simp: replace_absent)

lemma sublist_stars:
  assumes "sublist x s" and "set s \<subseteq> {c}"
  shows "set x \<subseteq> {c}"
proof -
  from assms(1) have "set x \<subseteq> set s" by (rule set_mono_sublist)
  then show ?thesis using assms(2) by (rule subset_trans)
qed

section \<open>Facts about the page counter\<close>

lemma PageIncrement_init_int:
  "PageIncrement_init se cfg (PageSizeInt n) par start inject =
     Inr \<lparr>pi_config = cfg, pi_page_size = PageSizeInt n, start_from_page = start,
          inject_on_first_request = inject, page = start, resolved_page_size = Some n\<rparr>"
  by (simp add: PageIncrement_init_def)

lemma PageIncrement_init_none:
  "PageIncrement_init se cfg PageSizeNone par start inject =
     Inr \<lparr>pi_config = cfg, pi_page_size = PageSizeNone, start_from_page = start,
          inject_on_first_request = inject, page = start, resolved_page_size = None\<rparr>"
  by (simp add: PageIncrement_init_def)

lemma next_page_token_resolved:
  "resolved_page_size (snd (PageIncrement_next_page_token self response n last_record)) =
     resolved_page_size self"
  by (simp add: PageIncrement_next_page_token_def)

lemma feed_pages_resolved:
  "resolved_page_size (snd (feed_pages self response ns)) = resolved_page_size self"
proof (induction ns arbitrary: self)
  case Nil
  show ?case by simp
next
  case (Cons n ns)
  obtain token self' where step:
    "PageIncrement_next_page_token self response n (None :: unit option) = (token, self')"
    by (cases "PageIncrement_next_page_token self response n (None :: unit option)")
  then have "snd (feed_pages self response (n # ns)) = snd (feed_pages self' response ns)"
    by (simp split: prod.splits)
  moreover have "resolved_page_size self' = resolved_page_size self"
    using next_page_token_resolved [of self response n "None :: unit option"] step by simp
  ultimately show ?case using Cons.IH [of self'] by simp
qed

section \<open>Facts about the falsy values\<close>

lemma py_eq_False_iff: "py_eq (PBool False) v \<longleftrightarrow> num_of v = Some (Finite 0)"
  by (cases v) simp_all

lemma py_eq_empty_dict: "py_eq (PDict []) v \<longleftrightarrow> v = PDict []"
  by (cases v) simp_all

lemma py_eq_empty_list: "py_eq (PList []) v \<longleftrightarrow> v = PList []"
  by (cases v) simp_all

lemma py_eq_empty_tuple: "py_eq (PTuple []) v \<longleftrightarrow> v = PTuple []"
  by (cases v) simp_all

lemma py_eq_empty_set: "py_eq (PSet []) v \<longleftrightarrow> v = PSet []"
  by (cases v) simp_all

lemma py_in_FALSE_VALUES: "py_in v FALSE_VALUES \<longleftrightarrow> falsy_result v"
  by (simp only: py_in_def FALSE_VALUES_def falsy_result_def list_ex_Nil_iff list_ex_Cons_iff
      py_eq_False_iff py_eq_empty_dict py_eq_empty_list py_eq_empty_tuple py_eq_empty_set
      py_eq.simps(2) insert_iff empty_iff simp_thms disj_ac)

section \<open>Facts about stream slices\<close>

lemma StreamSlice_eq_fields:
  "StreamSlice_eq a (ObjStreamSlice b) \<longleftrightarrow>
     mapping_eq (field_partition a) (field_partition b) \<and>
     mapping_eq (field_cursor_slice a) (field_cursor_slice b)"
  by (cases a; cases b) simp

lemma example_slices_constructed:
  "StreamSlice_init (Dict [''a'' \<mapsto> 1]) (Dict [''c'' \<mapsto> 1]) None = Inr inner_c1"
  "StreamSlice_init (Dict [''a'' \<mapsto> 1]) (Dict [''c'' \<mapsto> 2]) None = Inr inner_c2"
  "StreamSlice_init (Slice inner_c1) (Dict Map.empty) None = Inr outer_c1"
  "StreamSlice_init (Slice inner_c2) (Dict Map.empty) None = Inr outer_c2"
  "StreamSlice_init (Dict [''a'' \<mapsto> 1]) (Dict [''b'' \<mapsto> 2]) None = Inr inner_ab"
  "StreamSlice_init (Slice inner_ab) (Dict Map.empty) None = Inr outer_ab"
  "StreamSlice_init (Dict [''a'' \<mapsto> 1, ''b'' \<mapsto> 2]) (Dict Map.empty) None = Inr flat_ab"
  by (simp_all add: StreamSlice_init_def keys_def inner_c1_def inner_c2_def outer_c1_def
      outer_c2_def inner_ab_def outer_ab_def flat_ab_def)

lemma c_maps_differ: "[''c'' \<mapsto> (1::int)] \<noteq> [''c'' \<mapsto> 2]"
proof
  assume "[''c'' \<mapsto> (1::int)] = [''c'' \<mapsto> 2]"
  then have "[''c'' \<mapsto> (1::int)] ''c'' = [''c'' \<mapsto> (2::int)] ''c''" by (rule fun_cong)
  then show False by simp
qed

lemma ab_maps_differ: "[''a'' \<mapsto> (1::int)] \<noteq> [''a'' \<mapsto> 1, ''b'' \<mapsto> 2]"
proof
  assume "[''a'' \<mapsto> (1::int)] = [''a'' \<mapsto> 1, ''b'' \<mapsto> 2]"
  then have "[''a'' \<mapsto> (1::int)] ''b'' = [''a'' \<mapsto> (1::int), ''b'' \<mapsto> 2] ''b''" by (rule fun_cong)
  then show False by simp
qed

lemma innermost_partition_unique:
  "innermost_partition s m \<Longrightarrow> StreamSlice_partition s = m"
proof (induction rule: innermost_partition.induct)
  case (plain s m)
  then show ?case by (cases s) simp
next
  case (nested s t m)
  then show ?case by (cases s) simp
qed

lemma innermost_cursor_slice_unique:
  "innermost_cursor_slice s m \<Longrightarrow> StreamSlice_cursor_slice s = m"
proof (induction rule: innermost_cursor_slice.induct)
  case (plain s m)
  then show ?case by (cases s) simp
next
  case (nested s t m)
  then show ?case by (cases s) simp
qed

lemma innermost_partition_Dict: "innermost_partition (StreamSlice (Dict m) c e d) m"
  by (rule innermost_partition.plain) simp

lemma innermost_partition_Slice:
  "innermost_partition t m \<Longrightarrow> innermost_partition (StreamSlice (Slice t) c e d) m"
  by (rule innermost_partition.nested [of _ t]) simp_all

lemma innermost_cursor_slice_Dict: "innermost_cursor_slice (StreamSlice p (Dict m) e d) m"
  by (rule innermost_cursor_slice.plain) simp

lemma innermost_cursor_slice_Slice:
  "innermost_cursor_slice t m \<Longrightarrow> innermost_cursor_slice (StreamSlice p (Slice t) e d) m"
  by (rule innermost_cursor_slice.nested [of _ t]) simp_all

lemma innermost_partition_exists:
  fixes p :: "'v py_mapping" and s :: "'v stream_slice"
  shows "\<forall>c e d. innermost_partition (StreamSlice p c e d) (while_partition p)"
    and "innermost_partition s (StreamSlice_partition s)"
proof (induction p and s)
  case (Dict m)
  show ?case by (simp add: innermost_partition_Dict)
next
  case (Slice t)
  then show ?case by (simp add: innermost_partition_Slice)
next
  case (StreamSlice p c e d)
  then show ?case by simp
qed

lemma innermost_cursor_slice_exists:
  fixes c :: "'v py_mapping" and s :: "'v stream_slice"
  shows "\<forall>p e d. innermost_cursor_slice (StreamSlice p c e d) (while_cursor_slice c)"
    and "innermost_cursor_slice s (StreamSlice_cursor_slice s)"
proof (induction c and s)
  case (Dict m)
  show ?case by (simp add: innermost_cursor_slice_Dict)
next
  case (Slice t)
  then show ?case by (simp add: innermost_cursor_slice_Slice)
next
  case (StreamSlice p c e d)
  then show ?case by simp
qed

section \<open>Facts about the bounded test read\<close>

lemma walk_pages_length:
  "length (fst (walk_pages P limits n part tok st c)) \<le> n"
proof (induction n arbitrary: tok st c)
  case 0
  show ?case by simp
next
  case (Suc n)
  show ?case
  proof (cases "fetch_next_page P part tok st")
    case (Pair r st1)
    show ?thesis
    proof (cases r)
      case (Inl e)
      with Pair show ?thesis by simp
    next
      case (Inr pg)
      show ?thesis
      proof (cases "max_records limits \<le> c + length (pg_records pg)")
        case True
        with Pair Inr show ?thesis by (simp add: Let_def)
      next
        case False
        show ?thesis
        proof (cases "next_page_token P pg st1")
          case (Pair r2 st2)
          show ?thesis
          proof (cases r2)
            case (Inl e)
            with False \<open>fetch_next_page P part tok st = (r, st1)\<close> \<open>r = Inr pg\<close> Pair
            show ?thesis by (simp add: Let_def)
          next
            case (Inr t)
            show ?thesis
            proof (cases t)
              case None
              with False \<open>fetch_next_page P part tok st = (r, st1)\<close> \<open>r = Inr pg\<close> Pair Inr
              show ?thesis by (simp add: Let_def)
            next
              case (Some tok1)
              obtain pgs ending st3 c3 where
                w: "walk_pages P limits n part (Some tok1) st2 (c + length (pg_records pg)) =
                      (pgs, ending, st3, c3)"
                by (cases "walk_pages P limits n part (Some tok1) st2
                      (c + length (pg_records pg))") auto
              have "length pgs \<le> n"
                using Suc.IH [of "Some tok1" st2 "c + length (pg_records pg)"] w by simp
              with False \<open>fetch_next_page P part tok st = (r, st1)\<close> \<open>r = Inr pg\<close> Pair Inr Some w
              show ?thesis by (simp add: Let_def)
            qed
          qed
        qed
      qed
    qed
  qed
qed

lemma walk_partitions_bounds:
  "length (fst (walk_partitions P rendering limits parts st c)) \<le> length parts \<and>
   (\<forall>sl \<in> set (fst (walk_partitions P rendering limits parts st c)).
      length (pages sl) \<le> max_pages_per_slice limits)"
proof (induction parts arbitrary: st c)
  case Nil
  show ?case by simp
next
  case (Cons part parts)
  obtain tok st1 where r: "reset_pagination P st = (tok, st1)"
    by (cases "reset_pagination P st")
  obtain pgs ending st2 c2 where
    w: "walk_pages P limits (max_pages_per_slice limits) part tok st1 c = (pgs, ending, st2, c2)"
    by (cases "walk_pages P limits (max_pages_per_slice limits) part tok st1 c") auto
  have len: "length pgs \<le> max_pages_per_slice limits"
    using walk_pages_length [of P limits "max_pages_per_slice limits" part tok st1 c] w by simp
  obtain sls es reached st3 where
    rest: "walk_partitions P rendering limits parts st2 c2 = (sls, es, reached, st3)"
    by (cases "walk_partitions P rendering limits parts st2 c2") auto
  have ih: "length sls \<le> length parts \<and>
      (\<forall>sl \<in> set sls. length (pages sl) \<le> max_pages_per_slice limits)"
    using Cons.IH [of st2 c2] rest by simp
  show ?case
    using r w len rest ih by (cases ending) (simp_all add: Let_def)
qed

lemma read_stream_bounds:
  "length (slices (read_stream secrets rendering limits P st)) \<le> max_slices limits \<and>
   (\<forall>sl \<in> set (slices (read_stream secrets rendering limits P st)).
      length (pages sl) \<le> max_pages_per_slice limits)"
proof (cases "list_partitions P st")
  case (Pair r st1)
  show ?thesis
  proof (cases r)
    case (Inl e)
    with Pair show ?thesis by (simp add: read_stream_def run_read_def)
  next
    case (Inr parts)
    obtain sls es reached st2 where
      w: "walk_partitions P rendering limits (take (max_slices limits) parts) st1 0 =
            (sls, es, reached, st2)"
      by (cases "walk_partitions P rendering limits (take (max_slices limits) parts) st1 0") auto
    have "length sls \<le> length (take (max_slices limits) parts) \<and>
      (\<forall>sl \<in> set sls. length (pages sl) \<le> max_pages_per_slice limits)"
      using walk_partitions_bounds
        [of P rendering limits "take (max_slices limits) parts" st1 0] w by simp
    then have "length sls \<le> max_slices limits \<and>
      (\<forall>sl \<in> set sls. length (pages sl) \<le> max_pages_per_slice limits)"
      by simp
    with Pair Inr w show ?thesis by (simp add: read_stream_def run_read_def)
  qed
qed

subsection \<open>The traced pipeline\<close>

lemma traced_list_partitions:
  "list_partitions P st = (r, st1) \<Longrightarrow>
   list_partitions (traced P) (st, tr) = (r, (st1, note_result r tr))"
  by (simp add: traced_def)

lemma traced_reset_pagination:
  "reset_pagination P st = (tok, st1) \<Longrightarrow>
   reset_pagination (traced P) (st, tr) = (tok, (st1, note_partition tr))"
  by (simp add: traced_def)

lemma traced_fetch_next_page:
  "fetch_next_page P part tok st = (r, st1) \<Longrightarrow>
   fetch_next_page (traced P) part tok (st, tr) = (r, (st1, note_result r (note_fetch tr)))"
  by (simp add: traced_def)

lemma traced_next_page_token:
  "next_page_token P pg st = (r, st1) \<Longrightarrow>
   next_page_token (traced P) pg (st, tr) = (r, (st1, note_result r tr))"
  by (simp add: traced_def)

lemma note_fetch_props:
  "fetches tr \<noteq> [] \<Longrightarrow>
   raised (note_fetch tr) = raised tr \<and> fetches (note_fetch tr) \<noteq> [] \<and>
   butlast (fetches (note_fetch tr)) = butlast (fetches tr) \<and>
   last (fetches (note_fetch tr)) = Suc (last (fetches tr))"
  by (simp add: note_fetch_def)

lemma walk_pages_traced:
  assumes "fetches tr \<noteq> []"
  shows "\<exists>tr'. walk_pages (traced P) limits n part tok (st, tr) c =
           (case walk_pages P limits n part tok st c of
              (pgs, ending, st', c') \<Rightarrow> (pgs, ending, (st', tr'), c')) \<and>
         pages_trace_ok n tr (fst (snd (walk_pages P limits n part tok st c))) tr'"
  using assms
proof (induction n arbitrary: tok st tr c)
  case 0
  then show ?case by (simp add: pages_trace_ok_def)
next
  case (Suc n)
  note nf = note_fetch_props [OF Suc.prems]
  obtain r st1 where f: "fetch_next_page P part tok st = (r, st1)"
    by (cases "fetch_next_page P part tok st")
  note tf = traced_fetch_next_page [OF f, of tr]
  show ?case
  proof (cases r)
    case (Inl e)
    with f tf nf show ?thesis
      by (simp add: pages_trace_ok_def note_result_def)
  next
    case (Inr pg)
    show ?thesis
    proof (cases "max_records limits \<le> c + length (pg_records pg)")
      case True
      with f tf nf Inr show ?thesis
        by (simp add: pages_trace_ok_def note_result_def Let_def)
    next
      case False
      obtain r2 st2 where t: "next_page_token P pg st1 = (r2, st2)"
        by (cases "next_page_token P pg st1")
      note tt = traced_next_page_token [OF t, of "note_fetch tr"]
      show ?thesis
      proof (cases r2)
        case (Inl e)
        with f tf nf \<open>r = Inr pg\<close> False t tt show ?thesis
          by (simp add: pages_trace_ok_def note_result_def Let_def)
      next
        case (Inr next_tok)
        show ?thesis
        proof (cases next_tok)
          case None
          with f tf nf \<open>r = Inr pg\<close> False t tt Inr show ?thesis
            by (simp add: pages_trace_ok_def note_result_def Let_def)
        next
          case (Some tok1)
          from nf have ne: "fetches (note_fetch tr) \<noteq> []" by simp
          from Suc.IH [OF ne, of "Some tok1" st2 "c + length (pg_records pg)"]
          obtain tr' where
            w: "walk_pages (traced P) limits n part (Some tok1) (st2, note_fetch tr)
                  (c + length (pg_records pg)) =
                (case walk_pages P limits n part (Some tok1) st2 (c + length (pg_records pg)) of
                   (pgs, ending, st', c') \<Rightarrow> (pgs, ending, (st', tr'), c'))"
            and ok: "pages_trace_ok n (note_fetch tr)
                  (fst (snd (walk_pages P limits n part (Some tok1) st2
                     (c + length (pg_records pg))))) tr'"
            by blast
          obtain pgs ending st3 c3 where
            u: "walk_pages P limits n part (Some tok1) st2 (c + length (pg_records pg)) =
                  (pgs, ending, st3, c3)"
            by (cases "walk_pages P limits n part (Some tok1) st2
                  (c + length (pg_records pg))") auto
          from ok u nf have ok': "pages_trace_ok (Suc n) tr ending tr'"
            by (simp add: pages_trace_ok_def)
          from f tf \<open>r = Inr pg\<close> False t tt Inr Some w u
          have "walk_pages (traced P) limits (Suc n) part tok (st, tr) c =
              (case walk_pages P limits (Suc n) part tok st c of
                 (pgs, ending, st', c') \<Rightarrow> (pgs, ending, (st', tr'), c'))"
            by (simp add: note_result_def Let_def)
          moreover from f \<open>r = Inr pg\<close> False t Inr Some u
          have "fst (snd (walk_pages P limits (Suc n) part tok st c)) = ending"
            by (simp add: Let_def)
          ultimately show ?thesis using ok' by blast
        qed
      qed
    qed
  qed
qed

text \<open>
  What a walk over partitions adds to the trace: the exceptions it caught, and one fetch
  count, within the page ceiling, for every partition it started.
\<close>

lemma walk_partitions_traced:
  "\<exists>tr' ks. walk_partitions (traced P) rendering limits parts (st, tr) c =
           (case walk_partitions P rendering limits parts st c of
              (sls, es, reached, st') \<Rightarrow> (sls, es, reached, (st', tr'))) \<and>
         raised tr' = raised tr @ fst (snd (walk_partitions P rendering limits parts st c)) \<and>
         fetches tr' = fetches tr @ ks \<and> length ks \<le> length parts \<and>
         (\<forall>k \<in> set ks. k \<le> max_pages_per_slice limits)"
proof (induction parts arbitrary: st tr c)
  case Nil
  show ?case by simp
next
  case (Cons part parts)
  obtain tok st1 where r: "reset_pagination P st = (tok, st1)"
    by (cases "reset_pagination P st")
  note tr = traced_reset_pagination [OF r, of tr]
  have ne: "fetches (note_partition tr) \<noteq> []"
    by (simp add: note_partition_def)
  obtain pgs ending st2 c2 where
    w: "walk_pages P limits (max_pages_per_slice limits) part tok st1 c = (pgs, ending, st2, c2)"
    by (cases "walk_pages P limits (max_pages_per_slice limits) part tok st1 c") auto
  from walk_pages_traced [OF ne, of P limits "max_pages_per_slice limits" part tok st1 c] w
  obtain tr2 where
    tw: "walk_pages (traced P) limits (max_pages_per_slice limits) part tok
           (st1, note_partition tr) c = (pgs, ending, (st2, tr2), c2)"
    and ok: "pages_trace_ok (max_pages_per_slice limits) (note_partition tr) ending tr2"
    by auto
  from ok have raised2:
    "raised tr2 = raised tr @ (case ending of Failed e \<Rightarrow> [e] | _ \<Rightarrow> [])"
    by (simp add: pages_trace_ok_def note_partition_def)
  from ok have "fetches tr2 \<noteq> []" "butlast (fetches tr2) = fetches tr"
    "last (fetches tr2) \<le> max_pages_per_slice limits"
    by (simp_all add: pages_trace_ok_def note_partition_def)
  then have fetches2: "fetches tr2 = fetches tr @ [last (fetches tr2)]"
    and k2: "last (fetches tr2) \<le> max_pages_per_slice limits"
    using append_butlast_last_id [of "fetches tr2"] by simp_all
  from Cons.IH [of st2 tr2 c2]
  obtain tr3 ks where
    rest: "walk_partitions (traced P) rendering limits parts (st2, tr2) c2 =
           (case walk_partitions P rendering limits parts st2 c2 of
              (sls, es, reached, st') \<Rightarrow> (sls, es, reached, (st', tr3)))"
    and raised3: "raised tr3 =
        raised tr2 @ fst (snd (walk_partitions P rendering limits parts st2 c2))"
    and fetches3: "fetches tr3 = fetches tr2 @ ks"
    and ks: "length ks \<le> length parts" "\<forall>k \<in> set ks. k \<le> max_pages_per_slice limits"
    by blast
  obtain sls es reached st3 where
    u: "walk_partitions P rendering limits parts st2 c2 = (sls, es, reached, st3)"
    by (cases "walk_partitions P rendering limits parts st2 c2") auto
  show ?case
  proof (cases "ending = RecordLimitReached \<or>
      (\<exists>e. ending = Failed e \<and> \<not> fatal_to_partition_only rendering e)")
    case True
    then have "walk_partitions (traced P) rendering limits (part # parts) (st, tr) c =
           (case walk_partitions P rendering limits (part # parts) st c of
              (sls, es, reached, st') \<Rightarrow> (sls, es, reached, (st', tr2))) \<and>
         raised tr2 = raised tr @
           fst (snd (walk_partitions P rendering limits (part # parts) st c))"
      using r tr w tw raised2 by (auto simp: Let_def)
    moreover have "fetches tr2 = fetches tr @ [last (fetches tr2)] \<and>
        length [last (fetches tr2)] \<le> length (part # parts) \<and>
        (\<forall>k \<in> set [last (fetches tr2)]. k \<le> max_pages_per_slice limits)"
      using fetches2 k2 by simp
    ultimately show ?thesis by blast
  next
    case False
    then have "walk_partitions (traced P) rendering limits (part # parts) (st, tr) c =
           (case walk_partitions P rendering limits (part # parts) st c of
              (sls, es, reached, st') \<Rightarrow> (sls, es, reached, (st', tr3))) \<and>
         raised tr3 = raised tr @
           fst (snd (walk_partitions P rendering limits (part # parts) st c))"
      using r tr w tw raised2 rest raised3 u by (cases ending) (auto simp: Let_def)
    moreover have "fetches tr3 = fetches tr @ (last (fetches tr2) # ks) \<and>
        length (last (fetches tr2) # ks) \<le> length (part # parts) \<and>
        (\<forall>k \<in> set (last (fetches tr2) # ks). k \<le> max_pages_per_slice limits)"
      using fetches2 fetches3 k2 ks by simp
    ultimately show ?thesis by blast
  qed
qed

lemma run_read_traced:
  "\<exists>tr' ks. run_read secrets rendering limits (traced P) (st, empty_trace) =
           (read_stream secrets rendering limits P st,
            (snd (run_read secrets rendering limits P st), tr')) \<and>
         logs (read_stream secrets rendering limits P st) =
           map (error_log_message secrets rendering) (raised tr') \<and>
         fetches tr' = ks \<and> length ks \<le> max_slices limits \<and>
         (\<forall>k \<in> set ks. k \<le> max_pages_per_slice limits)"
proof -
  obtain r st1 where l: "list_partitions P st = (r, st1)"
    by (cases "list_partitions P st")
  note tl = traced_list_partitions [OF l, of empty_trace]
  show ?thesis
  proof (cases r)
    case (Inl e)
    with l tl show ?thesis
      by (simp add: run_read_def read_stream_def note_result_def empty_trace_def)
  next
    case (Inr parts)
    have "\<exists>tr' ks.
        walk_partitions (traced P) rendering limits (take (max_slices limits) parts)
            (st1, empty_trace) 0 =
          (case walk_partitions P rendering limits (take (max_slices limits) parts) st1 0 of
             (sls, es, reached, st') \<Rightarrow> (sls, es, reached, (st', tr'))) \<and>
        raised tr' =
          fst (snd (walk_partitions P rendering limits (take (max_slices limits) parts) st1 0)) \<and>
        fetches tr' = ks \<and> length ks \<le> length (take (max_slices limits) parts) \<and>
        (\<forall>k \<in> set ks. k \<le> max_pages_per_slice limits)"
      using walk_partitions_traced
        [of P rendering limits "take (max_slices limits) parts" st1 empty_trace 0]
      by (simp add: empty_trace_def)
    then obtain tr' ks where
      w: "walk_partitions (traced P) rendering limits (take (max_slices limits) parts)
            (st1, empty_trace) 0 =
          (case walk_partitions P rendering limits (take (max_slices limits) parts) st1 0 of
             (sls, es, reached, st') \<Rightarrow> (sls, es, reached, (st', tr')))"
      and ra: "raised tr' =
          fst (snd (walk_partitions P rendering limits (take (max_slices limits) parts) st1 0))"
      and fe: "fetches tr' = ks"
      and ks: "length ks \<le> length (take (max_slices limits) parts)"
        "\<forall>k \<in> set ks. k \<le> max_pages_per_slice limits"
      by blast
    obtain sls es reached st2 where
      u: "walk_partitions P rendering limits (take (max_slices limits) parts) st1 0 =
            (sls, es, reached, st2)"
      by (cases "walk_partitions P rendering limits (take (max_slices limits) parts) st1 0") auto
    from l tl Inr w u ra
    have "run_read secrets rendering limits (traced P) (st, empty_trace) =
           (read_stream secrets rendering limits P st,
            (snd (run_read secrets rendering limits P st), tr')) \<and>
         logs (read_stream secrets rendering limits P st) =
           map (error_log_message secrets rendering) (raised tr')"
      by (simp add: run_read_def read_stream_def note_result_def empty_trace_def)
    moreover from fe ks have "fetches tr' = ks \<and> length ks \<le> max_slices limits \<and>
         (\<forall>k \<in> set ks. k \<le> max_pages_per_slice limits)"
      by (simp add: empty_trace_def)
    ultimately show ?thesis by blast
  qed
qed

lemma read_trace_logs:
  "logs (read_stream secrets rendering limits P st) =
     map (error_log_message secrets rendering) (raised (read_trace secrets rendering limits P st))"
  using run_read_traced [of secrets rendering limits P st]
  by (auto simp: read_trace_def)

lemma read_trace_fetches:
  "length (fetches (read_trace secrets rendering limits P st)) \<le> max_slices limits \<and>
   (\<forall>k \<in> set (fetches (read_trace secrets rendering limits P st)).
      k \<le> max_pages_per_slice limits)"
  using run_read_traced [of secrets rendering limits P st]
  by (auto simp: read_trace_def)

lemma traced_report:
  "fst (run_read secrets rendering limits (traced P) (st, empty_trace)) =
     read_stream secrets rendering limits P st"
  using run_read_traced [of secrets rendering limits P st] by auto

subsection \<open>Masked texts\<close>

lemma error_log_message_masked:
  assumes "s \<in> set secrets" "s \<noteq> []" "CHR ''*'' \<notin> set s"
  shows "\<not> sublist s (message (error_log_message secrets rendering e)) \<and>
         \<not> sublist s (internal_message (error_log_message secrets rendering e)) \<and>
         \<not> sublist s (stacktrace (error_log_message secrets rendering e))"
  using assms by (simp add: error_log_message_def filter_secrets_removes)

lemma report_texts_masked:
  assumes "s \<in> set secrets" "s \<noteq> []" "CHR ''*'' \<notin> set s"
    and "t \<in> set (report_texts (read_stream secrets rendering limits P st))"
  shows "\<not> sublist s t"
proof -
  from assms(4) obtain e where
    "t \<in> {message (error_log_message secrets rendering e),
          internal_message (error_log_message secrets rendering e),
          stacktrace (error_log_message secrets rendering e)}"
    by (auto simp: report_texts_def read_trace_logs)
  with error_log_message_masked [OF assms(1-3), of rendering e] show ?thesis by auto
qed

section \<open>The claims\<close>

text \<open>
  Claim C1, as stated, fails in its last part, the absence of every registered secret
  from the whole serialized report. Masking replaces a secret by the mask token, so a
  secret that occurs in the mask token, such as \<^verbatim>\<open>*\<close>, is still found in the masked
  message. Only the texts of the log entries are masked, so a secret that stands in a
  record, request or response of a page read before the exception is found there
  verbatim. And a secret that is a word of the serialization itself, such as
  \<^verbatim>\<open>message\<close>, is found in it.
\<close>

theorem read_stream_secret_counterexample:
  "logs (read_stream [''*''] fixture_rendering default_limits (failing_pipeline ''bad key *'') ()) =
     [\<lparr>message = ''bad key ****'', level = ''ERROR'', internal_message = ''bad key ****'',
       stacktrace = ''bad key ****''\<rparr>] \<and>
   sublist ''*''
     (serialize_report json_null json_null json_null json_null
        (read_stream [''*''] fixture_rendering default_limits (failing_pipeline ''bad key *'') ())) \<and>
   sublist ''super_secret_key''
     (serialize_report json_string json_string json_string json_string
        (read_stream [''super_secret_key''] fixture_rendering default_limits
           (leaking_pipeline ''key=super_secret_key'' ''no more pages'') 0)) \<and>
   sublist ''message''
     (serialize_report json_null json_null json_null json_null
        (read_stream [''message''] fixture_rendering default_limits (failing_pipeline ''boom'') ()))"
  by code_simp

text \<open>
  Claim C1, amended: \<open>read_stream\<close> returns a report whatever the underlying read raises;
  for every exception the pipeline raised during the read, as the pipeline's own trace
  has it, the log of the report has an error-level entry whose message is the exception
  text masked by \<open>filter_secrets\<close> (keeping the trace does not change the report); when
  the read raises at its start the report has no partition and that one entry; and a
  registered secret that is not empty and does not contain the mask character \<^verbatim>\<open>*\<close>
  occurs in no message, internal message or stack trace of the report's log. Nothing is
  stated about the records, requests and responses of the pages, nor about the fixed
  words of the serialization.
\<close>

theorem read_stream_error_containment:
  "(\<forall>e \<in> set (raised (read_trace secrets rendering limits P st)).
      \<exists>entry \<in> set (logs (read_stream secrets rendering limits P st)).
        level entry = ''ERROR'' \<and>
        message entry = filter_secrets secrets (exception_text rendering e)) \<and>
   fst (run_read secrets rendering limits (traced P) (st, empty_trace)) =
     read_stream secrets rendering limits P st \<and>
   (fst (list_partitions P st) = Inl e \<longrightarrow>
      raised (read_trace secrets rendering limits P st) = [e] \<and>
      slices (read_stream secrets rendering limits P st) = [] \<and>
      logs (read_stream secrets rendering limits P st) =
        [error_log_message secrets rendering e]) \<and>
   (\<forall>s \<in> set secrets. s \<noteq> [] \<and> CHR ''*'' \<notin> set s \<longrightarrow>
      (\<forall>t \<in> set (report_texts (read_stream secrets rendering limits P st)). \<not> sublist s t))"
proof (intro conjI ballI impI)
  fix e' assume "e' \<in> set (raised (read_trace secrets rendering limits P st))"
  then have "error_log_message secrets rendering e'
      \<in> set (logs (read_stream secrets rendering limits P st))"
    by (simp add: read_trace_logs)
  moreover have "level (error_log_message secrets rendering e') = ''ERROR'' \<and>
      message (error_log_message secrets rendering e') =
        filter_secrets secrets (exception_text rendering e')"
    by (simp add: error_log_message_def)
  ultimately show "\<exists>entry \<in> set (logs (read_stream secrets rendering limits P st)).
        level entry = ''ERROR'' \<and>
        message entry = filter_secrets secrets (exception_text rendering e')"
    by (rule rev_bexI)
next
  show "fst (run_read secrets rendering limits (traced P) (st, empty_trace)) =
     read_stream secrets rendering limits P st"
    by (rule traced_report)
next
  assume a: "fst (list_partitions P st) = Inl e"
  then obtain st1 where l: "list_partitions P st = (Inl e, st1)"
    by (cases "list_partitions P st") simp
  from traced_list_partitions [OF l, of empty_trace]
  show "raised (read_trace secrets rendering limits P st) = [e]"
    by (simp add: read_trace_def run_read_def note_result_def empty_trace_def)
  from l show "slices (read_stream secrets rendering limits P st) = []"
    by (simp add: read_stream_def run_read_def)
  from l show "logs (read_stream secrets rendering limits P st) =
      [error_log_message secrets rendering e]"
    by (simp add: read_stream_def run_read_def)
next
  fix s t
  assume "s \<in> set secrets" "s \<noteq> [] \<and> CHR ''*'' \<notin> set s"
    and "t \<in> set (report_texts (read_stream secrets rendering limits P st))"
  then show "\<not> sublist s t"
    using report_texts_masked [of s secrets t rendering limits P st] by simp
qed

theorem read_stream_error_containment_witness:
  "raised (read_trace [''super_secret_key''] fixture_rendering default_limits
      (leaking_pipeline ''id=1'' ''Test exception with secret key: super_secret_key'') 0) =
     [Raised ''ValueError'' ''Test exception with secret key: super_secret_key''] \<and>
   logs (read_stream [''super_secret_key''] fixture_rendering default_limits
      (leaking_pipeline ''id=1'' ''Test exception with secret key: super_secret_key'') 0) =
     [\<lparr>message = ''Test exception with secret key: ****'', level = ''ERROR'',
       internal_message = ''Test exception with secret key: ****'',
       stacktrace = ''Test exception with secret key: ****''\<rparr>] \<and>
   list_ex (\<lambda>entry. level entry = ''ERROR'' \<and>
       message entry = filter_secrets [''super_secret_key'']
         (exception_text fixture_rendering
            (Raised ''ValueError'' ''Test exception with secret key: super_secret_key'')))
     (logs (read_stream [''super_secret_key''] fixture_rendering default_limits
        (leaking_pipeline ''id=1'' ''Test exception with secret key: super_secret_key'') 0)) \<and>
   fst (list_partitions (failing_pipeline ''Test exception with secret key: super_secret_key'') ())
     = Inl (Raised ''ValueError'' ''Test exception with secret key: super_secret_key'') \<and>
   logs (read_stream [''super_secret_key''] fixture_rendering default_limits
           (failing_pipeline ''Test exception with secret key: super_secret_key'') ()) =
     [\<lparr>message = ''Test exception with secret key: ****'', level = ''ERROR'',
       internal_message = ''Test exception with secret key: ****'',
       stacktrace = ''Test exception with secret key: ****''\<rparr>] \<and>
   slices (read_stream [''super_secret_key''] fixture_rendering default_limits
           (failing_pipeline ''Test exception with secret key: super_secret_key'') ()) = [] \<and>
   ''super_secret_key'' \<in> set [''super_secret_key''] \<and>
   ''super_secret_key'' \<noteq> [] \<and> CHR ''*'' \<notin> set ''super_secret_key'' \<and>
   list_all (\<lambda>t. \<not> sublist ''super_secret_key'' t)
     (report_texts (read_stream [''super_secret_key''] fixture_rendering default_limits
           (failing_pipeline ''Test exception with secret key: super_secret_key'') ()))"
proof -
  let ?msg = "''Test exception with secret key: super_secret_key''"
  let ?e = "Raised ''ValueError'' ?msg"
  let ?L = "leaking_pipeline ''id=1'' ?msg"
  let ?P = "failing_pipeline ?msg"
  have r: "raised (read_trace [''super_secret_key''] fixture_rendering default_limits ?L 0) = [?e]"
    by code_simp
  then have m: "?e \<in> set (raised (read_trace [''super_secret_key''] fixture_rendering
      default_limits ?L 0))"
    by simp
  have h1: "fst (list_partitions ?P ()) = Inl ?e"
    by (simp add: failing_pipeline_def)
  have h2: "''super_secret_key'' \<in> set [''super_secret_key''] \<and>
      ''super_secret_key'' \<noteq> [] \<and> CHR ''*'' \<notin> set ''super_secret_key''"
    by simp
  have ev: "error_log_message [''super_secret_key''] fixture_rendering ?e =
     \<lparr>message = ''Test exception with secret key: ****'', level = ''ERROR'',
       internal_message = ''Test exception with secret key: ****'',
       stacktrace = ''Test exception with secret key: ****''\<rparr>"
    by code_simp
  have lg: "logs (read_stream [''super_secret_key''] fixture_rendering default_limits ?L 0) =
     [\<lparr>message = ''Test exception with secret key: ****'', level = ''ERROR'',
       internal_message = ''Test exception with secret key: ****'',
       stacktrace = ''Test exception with secret key: ****''\<rparr>]"
    by code_simp
  note t1 = read_stream_error_containment
    [of "[''super_secret_key'']" fixture_rendering default_limits ?L 0 ?e]
  note t2 = read_stream_error_containment
    [of "[''super_secret_key'']" fixture_rendering default_limits ?P "()" ?e]
  from t1 m have ex: "\<exists>entry \<in> set (logs (read_stream [''super_secret_key''] fixture_rendering
        default_limits ?L 0)).
      level entry = ''ERROR'' \<and>
      message entry = filter_secrets [''super_secret_key''] (exception_text fixture_rendering ?e)"
    by blast
  from t2 h1 have p2: "slices (read_stream [''super_secret_key''] fixture_rendering
        default_limits ?P ()) = [] \<and>
      logs (read_stream [''super_secret_key''] fixture_rendering default_limits ?P ()) =
        [error_log_message [''super_secret_key''] fixture_rendering ?e]"
    by blast
  from t2 h2 have p3: "\<forall>t \<in> set (report_texts (read_stream [''super_secret_key'']
        fixture_rendering default_limits ?P ())). \<not> sublist ''super_secret_key'' t"
    by blast
  from r lg ex h1 p2 ev h2 p3 show ?thesis
    by (simp add: list_all_iff list_ex_iff)
qed

text \<open>
  Claim C2: on the pipeline of the test over any partitions more than three (the test has
  eight), with responses of two records and of one record in turn and a cursor that always
  names a next page, a read under \<open>max_records = 100\<close>, \<open>max_slices = 3\<close>,
  \<open>max_pages_per_slice = 2\<close> reports exactly three partitions of exactly two pages each,
  the first with two records and the second with one, and the pipeline is asked for
  exactly two pages of each of exactly three partitions. For every pipeline and every
  limits, the pipeline's own trace shows at most \<open>max_slices\<close> partitions started and at
  most \<open>max_pages_per_slice\<close> pages fetched for each, and the report holds no more.
\<close>

theorem bounded_read_ceilings:
  "(3 < length parts \<longrightarrow>
      map (\<lambda>sl. map (\<lambda>pg. length (pg_records pg)) (pages sl))
        (slices (read_stream secrets fixture_rendering fixture_limits
                   (fixture_pipeline_for parts) 0)) = [[2, 1], [2, 1], [2, 1]] \<and>
      fetches (read_trace secrets fixture_rendering fixture_limits
                 (fixture_pipeline_for parts) 0) = [2, 2, 2]) \<and>
   length (fetches (read_trace secrets rendering limits P st)) \<le> max_slices limits \<and>
   (\<forall>k \<in> set (fetches (read_trace secrets rendering limits P st)).
      k \<le> max_pages_per_slice limits) \<and>
   length (slices (read_stream secrets rendering limits P st)) \<le> max_slices limits \<and>
   (\<forall>sl \<in> set (slices (read_stream secrets rendering limits P st)).
      length (pages sl) \<le> max_pages_per_slice limits)"
proof -
  have fixture: "map (\<lambda>sl. map (\<lambda>pg. length (pg_records pg)) (pages sl))
        (slices (read_stream secrets fixture_rendering fixture_limits
                   (fixture_pipeline_for parts) 0)) = [[2, 1], [2, 1], [2, 1]] \<and>
      fetches (read_trace secrets fixture_rendering fixture_limits
                 (fixture_pipeline_for parts) 0) = [2, 2, 2]"
    if "3 < length parts"
  proof -
    from that obtain p1 p2 p3 rest where parts: "parts = p1 # p2 # p3 # rest"
      by (cases parts; cases "tl parts"; cases "tl (tl parts)") auto
    have tk: "take (max_slices fixture_limits) parts = [p1, p2, p3]"
      by (simp add: parts fixture_limits_def)
    have lp: "list_partitions (fixture_pipeline_for parts) 0 = (Inr parts, 0)"
      by (simp add: fixture_pipeline_for_def)
    have lt: "list_partitions (traced (fixture_pipeline_for parts)) (0, empty_trace) =
        (Inr parts, (0, empty_trace))"
      using traced_list_partitions [OF lp, of empty_trace] by (simp add: note_result_def)
    have w: "map (\<lambda>sl. map (\<lambda>pg. length (pg_records pg)) (pages sl))
        (fst (walk_partitions (fixture_pipeline_for parts) fixture_rendering fixture_limits
                [p1, p2, p3] 0 0)) = [[2, 1], [2, 1], [2, 1]]"
      by code_simp
    have wt: "fetches (snd (snd (snd (snd
        (walk_partitions (traced (fixture_pipeline_for parts)) fixture_rendering fixture_limits
           [p1, p2, p3] (0, empty_trace) 0))))) = [2, 2, 2]"
      by code_simp
    from w have "map (\<lambda>sl. map (\<lambda>pg. length (pg_records pg)) (pages sl))
        (slices (read_stream secrets fixture_rendering fixture_limits
                   (fixture_pipeline_for parts) 0)) = [[2, 1], [2, 1], [2, 1]]"
      by (simp add: read_stream_def run_read_def lp tk case_prod_beta del: walk_partitions.simps)
    moreover from wt have "fetches (read_trace secrets fixture_rendering fixture_limits
                 (fixture_pipeline_for parts) 0) = [2, 2, 2]"
      by (simp add: read_trace_def run_read_def lt tk case_prod_beta del: walk_partitions.simps)
    ultimately show ?thesis by simp
  qed
  from fixture read_trace_fetches [of secrets rendering limits P st]
    read_stream_bounds [of secrets rendering limits P st]
  show ?thesis by blast
qed

theorem bounded_read_ceilings_witness:
  "3 < length fixture_partitions \<and>
   map (\<lambda>sl. map (\<lambda>pg. length (pg_records pg)) (pages sl))
     (slices (read_stream [] fixture_rendering fixture_limits fixture_pipeline 0)) =
     [[2, 1], [2, 1], [2, 1]] \<and>
   fetches (read_trace [] fixture_rendering fixture_limits fixture_pipeline 0) = [2, 2, 2] \<and>
   fetches (read_trace [] fixture_rendering default_limits fixture_pipeline 0) =
     [5, 5, 5, 5, 1] \<and>
   length (fetches (read_trace [] fixture_rendering default_limits fixture_pipeline 0))
     \<le> max_slices default_limits \<and>
   list_all (\<lambda>k. k \<le> max_pages_per_slice default_limits)
     (fetches (read_trace [] fixture_rendering default_limits fixture_pipeline 0)) \<and>
   length (slices (read_stream [] fixture_rendering default_limits fixture_pipeline 0))
     \<le> max_slices default_limits \<and>
   list_all (\<lambda>sl. length (pages sl) \<le> max_pages_per_slice default_limits)
     (slices (read_stream [] fixture_rendering default_limits fixture_pipeline 0))"
proof -
  have h: "3 < length fixture_partitions"
    by (simp add: fixture_partitions_def)
  have f: "fetches (read_trace [] fixture_rendering default_limits fixture_pipeline 0) =
     [5, 5, 5, 5, 1]"
    by code_simp
  from h f
    bounded_read_ceilings [of fixture_partitions "[]" fixture_rendering default_limits
      fixture_pipeline 0]
  show ?thesis by (simp add: list_all_iff fixture_pipeline_def)
qed

text \<open>
  Claim C3, as stated, fails: a secret made of mask characters is replaced inside a string
  of mask tokens; with the secret \<^verbatim>\<open>a*\<close> masking \<^verbatim>\<open>aa*\<close> twice differs from masking
  it once; and with the secrets \<^verbatim>\<open>x\<close> and \<^verbatim>\<open>xk\<close> the masked form of \<^verbatim>\<open>xk\<close>
  depends on which was registered first.
\<close>

theorem filter_secrets_counterexample:
  "filter_secrets [''*''] ''****'' = ''****************'' \<and>
   filter_secrets [''a*''] ''aa*'' = ''a****'' \<and>
   filter_secrets [''a*''] ''a****'' = ''*******'' \<and>
   filter_secrets [''x'', ''xk''] ''xk'' = ''****k'' \<and>
   filter_secrets [''xk'', ''x''] ''xk'' = ''****''"
  by code_simp

text \<open>
  Claim C3, amended: \<open>filter_secrets\<close> returns a string unchanged when no non-empty
  registered secret occurs in it; in particular it returns a string made of mask
  characters unchanged when no non-empty registered secret consists of mask characters
  only; and when no registered secret contains the mask character, masking a masked string
  again changes nothing. Nothing is stated about the order of registration.
\<close>

theorem filter_secrets_noop_idempotent:
  "((\<forall>x \<in> set secrets. x \<noteq> [] \<longrightarrow> \<not> sublist x s) \<longrightarrow> filter_secrets secrets s = s) \<and>
   (set s \<subseteq> {CHR ''*''} \<and> (\<forall>x \<in> set secrets. x \<noteq> [] \<longrightarrow> \<not> set x \<subseteq> {CHR ''*''}) \<longrightarrow>
      filter_secrets secrets s = s) \<and>
   ((\<forall>x \<in> set secrets. CHR ''*'' \<notin> set x) \<longrightarrow>
      filter_secrets secrets (filter_secrets secrets s) = filter_secrets secrets s)"
proof (intro conjI impI)
  assume "\<forall>x \<in> set secrets. x \<noteq> [] \<longrightarrow> \<not> sublist x s"
  then show "filter_secrets secrets s = s" by (rule filter_secrets_absent)
next
  assume a: "set s \<subseteq> {CHR ''*''} \<and> (\<forall>x \<in> set secrets. x \<noteq> [] \<longrightarrow> \<not> set x \<subseteq> {CHR ''*''})"
  have "\<forall>x \<in> set secrets. x \<noteq> [] \<longrightarrow> \<not> sublist x s"
  proof (intro ballI impI notI)
    fix x assume "x \<in> set secrets" "x \<noteq> []" "sublist x s"
    from \<open>sublist x s\<close> a have "set x \<subseteq> {CHR ''*''}" by (intro sublist_stars [of x s]) simp_all
    moreover from a \<open>x \<in> set secrets\<close> \<open>x \<noteq> []\<close> have "\<not> set x \<subseteq> {CHR ''*''}" by simp
    ultimately show False by simp
  qed
  then show "filter_secrets secrets s = s" by (rule filter_secrets_absent)
next
  assume a: "\<forall>x \<in> set secrets. CHR ''*'' \<notin> set x"
  have "\<forall>x \<in> set secrets. x \<noteq> [] \<longrightarrow> \<not> sublist x (filter_secrets secrets s)"
  proof (intro ballI impI)
    fix x assume x: "x \<in> set secrets" "x \<noteq> []"
    with a have "CHR ''*'' \<notin> set x" by simp
    with x show "\<not> sublist x (filter_secrets secrets s)" by (rule filter_secrets_removes)
  qed
  then show "filter_secrets secrets (filter_secrets secrets s) = filter_secrets secrets s"
    by (rule filter_secrets_absent)
qed

theorem filter_secrets_noop_idempotent_witness:
  "\<not> sublist ''key'' ''no secret'' \<and>
   filter_secrets [''key'', ''''] ''no secret'' = ''no secret'' \<and>
   set ''****'' \<subseteq> {CHR ''*''} \<and>
   \<not> set ''key'' \<subseteq> {CHR ''*''} \<and>
   filter_secrets [''key'', ''''] ''****'' = ''****'' \<and>
   CHR ''*'' \<notin> set ''key'' \<and> CHR ''*'' \<notin> set ''ey 1'' \<and>
   filter_secrets [''key'', ''ey 1''] (filter_secrets [''key'', ''ey 1''] ''my key 1'') =
     filter_secrets [''key'', ''ey 1''] ''my key 1''"
proof -
  have n1: "\<not> sublist ''key'' ''no secret''"
    by code_simp
  then have h1: "\<forall>x \<in> set [''key'', ''''] . x \<noteq> [] \<longrightarrow> \<not> sublist x ''no secret''"
    by simp
  have n2: "set ''****'' \<subseteq> {CHR ''*''}" and n3: "\<not> set ''key'' \<subseteq> {CHR ''*''}"
    by simp_all
  then have h2: "set ''****'' \<subseteq> {CHR ''*''} \<and>
    (\<forall>x \<in> set [''key'', ''''] . x \<noteq> [] \<longrightarrow> \<not> set x \<subseteq> {CHR ''*''})"
    by simp
  have n4: "CHR ''*'' \<notin> set ''key''" and n5: "CHR ''*'' \<notin> set ''ey 1''"
    by simp_all
  then have h3: "\<forall>x \<in> set [''key'', ''ey 1''] . CHR ''*'' \<notin> set x"
    by simp
  from filter_secrets_noop_idempotent [of "[''key'', '''']" "''no secret''"] h1
  have c1: "filter_secrets [''key'', ''''] ''no secret'' = ''no secret''" by blast
  from filter_secrets_noop_idempotent [of "[''key'', '''']" "''****''"] h2
  have c2: "filter_secrets [''key'', ''''] ''****'' = ''****''" by blast
  from filter_secrets_noop_idempotent [of "[''key'', ''ey 1'']" "''my key 1''"] h3
  have c3: "filter_secrets [''key'', ''ey 1''] (filter_secrets [''key'', ''ey 1''] ''my key 1'') =
     filter_secrets [''key'', ''ey 1''] ''my key 1''" by blast
  from n1 n2 n3 n4 n5 c1 c2 c3 show ?thesis by (intro conjI)
qed

text \<open>
  Claim C4, as stated, fails: a template that evaluates to \<^verbatim>\<open>None\<close> gives true, since
  \<^verbatim>\<open>None\<close> equals no member of \<open>FALSE_VALUES\<close>; and the number \<^verbatim>\<open>0\<close>, which
  the claim's list does not name, gives false, since \<^verbatim>\<open>0 == False\<close>.
\<close>

theorem interpolated_boolean_none_counterexample:
  "InterpolatedBoolean_eval (constant_interpolation PNone)
      (InterpolatedBoolean (CondStr ''{{ None }}'') ()) () () = Inr True \<and>
   InterpolatedBoolean_eval (constant_interpolation (PInt 0))
      (InterpolatedBoolean (CondStr ''{{ 0 }}'') ()) () () = Inr False"
  by (simp add: InterpolatedBoolean_eval_def InterpolatedBoolean_def py_in_FALSE_VALUES
      falsy_result_def constant_interpolation_def)

text \<open>
  Claim C4, amended: when the template evaluates to a value, \<open>eval\<close> returns false exactly
  when the value is one of the strings \<^verbatim>\<open>"False"\<close>, \<^verbatim>\<open>"false"\<close>, \<^verbatim>\<open>"{}"\<close>,
  \<^verbatim>\<open>"[]"\<close>, \<^verbatim>\<open>"()"\<close>, \<^verbatim>\<open>""\<close>, \<^verbatim>\<open>"0"\<close>, \<^verbatim>\<open>"0.0"\<close>, an empty dict, list,
  tuple or set, or a number equal to zero (\<^verbatim>\<open>False\<close>, \<^verbatim>\<open>0\<close>, \<^verbatim>\<open>0.0\<close>); for every
  other value, \<^verbatim>\<open>None\<close> included, it returns true.
\<close>

theorem interpolated_boolean_falsiness:
  assumes "interpolation s config ''False'' parameters kwargs = Inr v"
  shows "InterpolatedBoolean_eval interpolation (InterpolatedBoolean (CondStr s) parameters)
           config kwargs = Inr (\<not> falsy_result v)"
  using assms
  by (simp add: InterpolatedBoolean_eval_def InterpolatedBoolean_def py_in_FALSE_VALUES)

theorem interpolated_boolean_falsiness_witness:
  "constant_interpolation (PStr ''0.0'') ''{{ x }}'' () ''False'' () () = Inr (PStr ''0.0'') \<and>
   InterpolatedBoolean_eval (constant_interpolation (PStr ''0.0''))
      (InterpolatedBoolean (CondStr ''{{ x }}'') ()) () () = Inr False \<and>
   constant_interpolation (PBytes []) ''{{ y }}'' () ''False'' () () = Inr (PBytes []) \<and>
   InterpolatedBoolean_eval (constant_interpolation (PBytes []))
      (InterpolatedBoolean (CondStr ''{{ y }}'') ()) () () = Inr True"
proof -
  have h1: "constant_interpolation (PStr ''0.0'') ''{{ x }}'' () ''False'' () () =
      Inr (PStr ''0.0'')"
    by (simp add: constant_interpolation_def)
  have h2: "constant_interpolation (PBytes []) ''{{ y }}'' () ''False'' () () = Inr (PBytes [])"
    by (simp add: constant_interpolation_def)
  from h1 h2
    interpolated_boolean_falsiness
      [of "constant_interpolation (PStr ''0.0'')" "''{{ x }}''" "()" "()" "()" "PStr ''0.0''"]
    interpolated_boolean_falsiness
      [of "constant_interpolation (PBytes [])" "''{{ y }}''" "()" "()" "()" "PBytes []"]
  show ?thesis by (simp add: falsy_result_def)
qed

text \<open>
  Claim C5: constructing a \<open>StreamSlice\<close> whose partition and cursor slice share a key
  fails with the \<^verbatim>\<open>ValueError\<close>; and two constructed slices are equal exactly when the
  partitions they were given are equal and the cursor slices they were given are equal
  (for plain dicts: the same entries), whatever extra fields each was given.
\<close>

theorem stream_slice_invariant:
  "(keys p \<inter> keys c \<noteq> {} \<longrightarrow>
      StreamSlice_init p c e =
        Inl (ValueError ''Keys for partition and incremental sync cursor should not overlap'')) \<and>
   (StreamSlice_init p c e = Inr a \<and> StreamSlice_init p' c' e' = Inr b \<longrightarrow>
      (StreamSlice_eq a (ObjStreamSlice b) \<longleftrightarrow> mapping_eq p p' \<and> mapping_eq c c')) \<and>
   (mapping_eq (Dict m) (Dict n) \<longleftrightarrow> m = n)"
  by (auto simp: StreamSlice_init_def StreamSlice_eq_fields split: if_splits)

theorem stream_slice_invariant_witness:
  "keys (Dict [''k'' \<mapsto> (1::int)]) \<inter> keys (Dict [''k'' \<mapsto> 2]) \<noteq> {} \<and>
   StreamSlice_init (Dict [''k'' \<mapsto> (1::int)]) (Dict [''k'' \<mapsto> 2]) None =
     Inl (ValueError ''Keys for partition and incremental sync cursor should not overlap'') \<and>
   StreamSlice_init (Dict [''k'' \<mapsto> (1::int)]) (Dict [''t'' \<mapsto> 2]) None =
     Inr (StreamSlice (Dict [''k'' \<mapsto> 1]) (Dict [''t'' \<mapsto> 2]) Map.empty
            ([''k'' \<mapsto> 1] ++ [''t'' \<mapsto> 2])) \<and>
   StreamSlice_init (Dict [''k'' \<mapsto> (1::int)]) (Dict [''t'' \<mapsto> 2]) (Some [''x'' \<mapsto> 9]) =
     Inr (StreamSlice (Dict [''k'' \<mapsto> 1]) (Dict [''t'' \<mapsto> 2]) [''x'' \<mapsto> 9]
            ([''k'' \<mapsto> 1] ++ [''t'' \<mapsto> 2])) \<and>
   StreamSlice_eq
     (StreamSlice (Dict [''k'' \<mapsto> (1::int)]) (Dict [''t'' \<mapsto> 2]) Map.empty
        ([''k'' \<mapsto> 1] ++ [''t'' \<mapsto> 2]))
     (ObjStreamSlice
        (StreamSlice (Dict [''k'' \<mapsto> 1]) (Dict [''t'' \<mapsto> 2]) [''x'' \<mapsto> 9]
           ([''k'' \<mapsto> 1] ++ [''t'' \<mapsto> 2])))"
proof -
  have h1: "keys (Dict [''k'' \<mapsto> (1::int)]) \<inter> keys (Dict [''k'' \<mapsto> 2]) \<noteq> {}"
    by (simp add: keys_def)
  have h2: "StreamSlice_init (Dict [''k'' \<mapsto> (1::int)]) (Dict [''t'' \<mapsto> 2]) None =
     Inr (StreamSlice (Dict [''k'' \<mapsto> 1]) (Dict [''t'' \<mapsto> 2]) Map.empty
            ([''k'' \<mapsto> 1] ++ [''t'' \<mapsto> 2]))"
    by (simp add: StreamSlice_init_def keys_def)
  have h3: "StreamSlice_init (Dict [''k'' \<mapsto> (1::int)]) (Dict [''t'' \<mapsto> 2]) (Some [''x'' \<mapsto> 9]) =
     Inr (StreamSlice (Dict [''k'' \<mapsto> 1]) (Dict [''t'' \<mapsto> 2]) [''x'' \<mapsto> 9]
            ([''k'' \<mapsto> 1] ++ [''t'' \<mapsto> 2]))"
    by (simp add: StreamSlice_init_def keys_def)
  from h1 stream_slice_invariant
    [of "Dict [''k'' \<mapsto> (1::int)]" "Dict [''k'' \<mapsto> 2]" None]
  have c1: "StreamSlice_init (Dict [''k'' \<mapsto> (1::int)]) (Dict [''k'' \<mapsto> 2]) None =
     Inl (ValueError ''Keys for partition and incremental sync cursor should not overlap'')"
    by blast
  from h2 h3 stream_slice_invariant
    [of "Dict [''k'' \<mapsto> (1::int)]" "Dict [''t'' \<mapsto> 2]" None _
        "Dict [''k'' \<mapsto> (1::int)]" "Dict [''t'' \<mapsto> 2]" "Some [''x'' \<mapsto> 9]"]
  have c2: "StreamSlice_eq
     (StreamSlice (Dict [''k'' \<mapsto> (1::int)]) (Dict [''t'' \<mapsto> 2]) Map.empty
        ([''k'' \<mapsto> 1] ++ [''t'' \<mapsto> 2]))
     (ObjStreamSlice
        (StreamSlice (Dict [''k'' \<mapsto> 1]) (Dict [''t'' \<mapsto> 2]) [''x'' \<mapsto> 9]
           ([''k'' \<mapsto> 1] ++ [''t'' \<mapsto> 2])))"
    by simp
  from h1 h2 h3 c1 c2 show ?thesis by (intro conjI)
qed

text \<open>
  Claim C6: a \<open>PageIncrement\<close> with page size 2, fed pages of 2, 2 and 1 records, returns
  a token after the first and the second page and \<^verbatim>\<open>None\<close> after the third; and on a
  page of 0 records \<open>next_page_token\<close> returns \<^verbatim>\<open>None\<close> whatever the strategy's state,
  leaving the page counter as it is.
\<close>

theorem page_increment_termination:
  "(\<exists>self. PageIncrement_init string_eval config (PageSizeInt 2) parameters start inject = Inr self \<and>
      fst (feed_pages self response [2, 2, 1]) = [Some (start + 1), Some (start + 2), None]) \<and>
   PageIncrement_next_page_token self' response' 0 last_record = (None, self')"
  by (simp add: PageIncrement_init_int PageIncrement_next_page_token_def)

text \<open>
  Claim C7: once the response is decoded, if the configured stop condition evaluates to
  true, \<open>next_page_token\<close> returns \<^verbatim>\<open>None\<close> whatever the cursor expression would
  evaluate to (it is not evaluated); if the stop condition is absent or evaluates to
  false, a cursor that evaluates to a falsy value gives \<^verbatim>\<open>None\<close> as well, and a truthy
  one is returned as the token.
\<close>

theorem cursor_stop_condition_precedence:
  assumes "decoder self response = Inr (decoded # rest)"
    and "kwargs = \<lparr>kw_response = decoded,
                    kw_headers = (resp_headers response)(''link'' \<mapsto> resp_links response),
                    kw_last_record = last_record, kw_last_page_size = last_page_size\<rparr>"
  shows "(cps_stop_condition self = Some c \<and>
          InterpolatedBoolean_eval interpolation c (cps_config self) kwargs = Inr True \<longrightarrow>
            CursorPaginationStrategy_next_page_token interpolation string_eval self response
              last_page_size last_record = Inr None) \<and>
         ((cps_stop_condition self = None \<or>
           (cps_stop_condition self = Some c \<and>
            InterpolatedBoolean_eval interpolation c (cps_config self) kwargs = Inr False)) \<and>
          string_eval (cps_cursor_value self) (cps_config self) (Some kwargs) = Inr token \<longrightarrow>
            CursorPaginationStrategy_next_page_token interpolation string_eval self response
              last_page_size last_record = Inr (if truthy token then Some token else None))"
  using assms
  by (auto simp: CursorPaginationStrategy_next_page_token_def Let_def)

theorem cursor_stop_condition_precedence_witness:
  "decoder stopping_strategy (page_response two_record_body) = Inr [two_record_body] \<and>
   cps_stop_condition stopping_strategy = Some (InterpolatedBoolean (CondStr ''{{ True }}'') ()) \<and>
   fixture_string_eval (cps_cursor_value stopping_strategy) (cps_config stopping_strategy)
     (Some \<lparr>kw_response = two_record_body,
            kw_headers = (resp_headers (page_response two_record_body))
                           (''link'' \<mapsto> resp_links (page_response two_record_body)),
            kw_last_record = None, kw_last_page_size = 2\<rparr>) = Inr (PStr ''next'') \<and>
   CursorPaginationStrategy_next_page_token fixture_interpolation fixture_string_eval
     stopping_strategy (page_response two_record_body) 2 None = Inr None \<and>
   decoder fixture_strategy (page_response (PDict [])) = Inr [PDict []] \<and>
   cps_stop_condition fixture_strategy = None \<and>
   CursorPaginationStrategy_next_page_token fixture_interpolation fixture_string_eval
     fixture_strategy (page_response (PDict [])) 0 None = Inr None"
proof -
  have d1: "decoder stopping_strategy (page_response two_record_body) = Inr (two_record_body # [])"
    by (simp add: stopping_strategy_def CursorPaginationStrategy_init_def fixture_decoder_def
        page_response_def)
  have s1: "cps_stop_condition stopping_strategy =
      Some (InterpolatedBoolean (CondStr ''{{ True }}'') ())"
    by (simp add: stopping_strategy_def CursorPaginationStrategy_init_def)
  have e1: "InterpolatedBoolean_eval fixture_interpolation
      (InterpolatedBoolean (CondStr ''{{ True }}'') ()) (cps_config stopping_strategy)
      \<lparr>kw_response = two_record_body,
        kw_headers = (resp_headers (page_response two_record_body))
                       (''link'' \<mapsto> resp_links (page_response two_record_body)),
        kw_last_record = None, kw_last_page_size = 2\<rparr> = Inr True"
    by (simp add: InterpolatedBoolean_eval_def InterpolatedBoolean_def fixture_interpolation_def
        py_in_FALSE_VALUES falsy_result_def)
  have c1: "fixture_string_eval (cps_cursor_value stopping_strategy) (cps_config stopping_strategy)
     (Some \<lparr>kw_response = two_record_body,
            kw_headers = (resp_headers (page_response two_record_body))
                           (''link'' \<mapsto> resp_links (page_response two_record_body)),
            kw_last_record = None, kw_last_page_size = 2\<rparr>) = Inr (PStr ''next'')"
    by (simp add: fixture_string_eval_def two_record_body_def)
  have d2: "decoder fixture_strategy (page_response (PDict [])) = Inr (PDict [] # [])"
    by (simp add: fixture_strategy_def CursorPaginationStrategy_init_def fixture_decoder_def
        page_response_def)
  have s2: "cps_stop_condition fixture_strategy = None"
    by (simp add: fixture_strategy_def CursorPaginationStrategy_init_def)
  have c2: "fixture_string_eval (cps_cursor_value fixture_strategy) (cps_config fixture_strategy)
     (Some \<lparr>kw_response = PDict [],
            kw_headers = (resp_headers (page_response (PDict [])))
                           (''link'' \<mapsto> resp_links (page_response (PDict []))),
            kw_last_record = None, kw_last_page_size = 0\<rparr>) = Inr PNone"
    by (simp add: fixture_string_eval_def)
  from cursor_stop_condition_precedence [OF d1 refl, of "InterpolatedBoolean (CondStr ''{{ True }}'') ()"
      fixture_interpolation None 2 fixture_string_eval "PStr ''next''"] s1 e1
  have r1: "CursorPaginationStrategy_next_page_token fixture_interpolation fixture_string_eval
     stopping_strategy (page_response two_record_body) 2 None = Inr None"
    by blast
  from cursor_stop_condition_precedence [OF d2 refl, of "InterpolatedBoolean (CondStr '''') ()"
      fixture_interpolation None 0 fixture_string_eval PNone] s2 c2
  have r2: "CursorPaginationStrategy_next_page_token fixture_interpolation fixture_string_eval
     fixture_strategy (page_response (PDict [])) 0 None = Inr None"
    by simp
  from d1 s1 c1 r1 d2 s2 r2 show ?thesis by simp
qed

text \<open>
  Claim C8, as stated, fails in its second half: equality compares the constituents as
  they were given, not the innermost mappings. Two slices whose partition constituents
  are slices with the same partition and different cursor slices have equal accessor
  results and are not equal; and a slice nested in the partition position equals a flat
  slice holding the merged entries, although their \<open>partition\<close> accessors differ.
\<close>

theorem nested_slice_equality_counterexample:
  "StreamSlice_init (Slice inner_c1) (Dict Map.empty) None = Inr outer_c1 \<and>
   StreamSlice_init (Slice inner_c2) (Dict Map.empty) None = Inr outer_c2 \<and>
   StreamSlice_partition outer_c1 = StreamSlice_partition outer_c2 \<and>
   StreamSlice_cursor_slice outer_c1 = StreamSlice_cursor_slice outer_c2 \<and>
   \<not> StreamSlice_eq outer_c1 (ObjStreamSlice outer_c2) \<and>
   StreamSlice_init (Slice inner_ab) (Dict Map.empty) None = Inr outer_ab \<and>
   StreamSlice_init (Dict [''a'' \<mapsto> 1, ''b'' \<mapsto> 2]) (Dict Map.empty) None = Inr flat_ab \<and>
   StreamSlice_eq outer_ab (ObjStreamSlice flat_ab) \<and>
   StreamSlice_partition outer_ab \<noteq> StreamSlice_partition flat_ab"
  using c_maps_differ ab_maps_differ
  by (simp add: example_slices_constructed)
     (simp add: inner_c1_def inner_c2_def outer_c1_def outer_c2_def inner_ab_def outer_ab_def
        flat_ab_def)

text \<open>
  Claim C8, amended: for a slice nested to any depth the \<open>partition\<close> (respectively
  \<open>cursor_slice\<close>) accessor returns the innermost mapping that is not a slice. Equality
  of two slices compares the constituents as given: a nested constituent is compared with
  another slice by this same equality (both of its constituents) and with a dict by its
  merged mapping. When all four constituents are plain dicts, two slices are equal exactly
  when their accessor results are equal.
\<close>

theorem nested_slice_unwrapping:
  "(innermost_partition s m \<longleftrightarrow> StreamSlice_partition s = m) \<and>
   (innermost_cursor_slice s m \<longleftrightarrow> StreamSlice_cursor_slice s = m) \<and>
   (StreamSlice_eq a (ObjStreamSlice b) \<longleftrightarrow>
      mapping_eq (field_partition a) (field_partition b) \<and>
      mapping_eq (field_cursor_slice a) (field_cursor_slice b)) \<and>
   (mapping_eq (Slice t) (Slice t') \<longleftrightarrow> StreamSlice_eq t (ObjStreamSlice t')) \<and>
   (mapping_eq (Slice t) (Dict n) \<longleftrightarrow> field_stream_slice t = n) \<and>
   (mapping_eq (Dict n) (Slice t) \<longleftrightarrow> field_stream_slice t = n) \<and>
   (field_partition a = Dict p \<and> field_cursor_slice a = Dict c \<and>
    field_partition b = Dict p' \<and> field_cursor_slice b = Dict c' \<longrightarrow>
      (StreamSlice_eq a (ObjStreamSlice b) \<longleftrightarrow>
         StreamSlice_partition a = StreamSlice_partition b \<and>
         StreamSlice_cursor_slice a = StreamSlice_cursor_slice b))"
proof -
  have 1: "innermost_partition s m \<longleftrightarrow> StreamSlice_partition s = m"
    using innermost_partition_unique [of s m] innermost_partition_exists(2) [of s] by auto
  have 2: "innermost_cursor_slice s m \<longleftrightarrow> StreamSlice_cursor_slice s = m"
    using innermost_cursor_slice_unique [of s m] innermost_cursor_slice_exists(2) [of s] by auto
  have 3: "field_partition a = Dict p \<and> field_cursor_slice a = Dict c \<and>
    field_partition b = Dict p' \<and> field_cursor_slice b = Dict c' \<longrightarrow>
      (StreamSlice_eq a (ObjStreamSlice b) \<longleftrightarrow>
         StreamSlice_partition a = StreamSlice_partition b \<and>
         StreamSlice_cursor_slice a = StreamSlice_cursor_slice b)"
    by (cases a; cases b) simp
  have 4: "StreamSlice_eq a (ObjStreamSlice b) \<longleftrightarrow>
      mapping_eq (field_partition a) (field_partition b) \<and>
      mapping_eq (field_cursor_slice a) (field_cursor_slice b)"
    by (rule StreamSlice_eq_fields)
  have 5: "mapping_eq (Slice t) (Slice t') \<longleftrightarrow> StreamSlice_eq t (ObjStreamSlice t')"
    by simp
  have 6: "mapping_eq (Slice t) (Dict n) \<longleftrightarrow> field_stream_slice t = n"
    by simp
  have 7: "mapping_eq (Dict n) (Slice t) \<longleftrightarrow> field_stream_slice t = n"
    by simp
  show ?thesis
    by (intro conjI; (rule 1 2 3 4 5 6 7))
qed

theorem nested_slice_unwrapping_witness:
  "field_partition inner_c1 = Dict [''a'' \<mapsto> 1] \<and>
   field_cursor_slice inner_c1 = Dict [''c'' \<mapsto> 1] \<and>
   field_partition inner_c2 = Dict [''a'' \<mapsto> 1] \<and>
   field_cursor_slice inner_c2 = Dict [''c'' \<mapsto> 2] \<and>
   (StreamSlice_eq inner_c1 (ObjStreamSlice inner_c2) \<longleftrightarrow>
      StreamSlice_partition inner_c1 = StreamSlice_partition inner_c2 \<and>
      StreamSlice_cursor_slice inner_c1 = StreamSlice_cursor_slice inner_c2) \<and>
   innermost_partition outer_c1 [''a'' \<mapsto> 1]"
proof -
  have h: "field_partition inner_c1 = Dict [''a'' \<mapsto> 1] \<and>
    field_cursor_slice inner_c1 = Dict [''c'' \<mapsto> 1] \<and>
    field_partition inner_c2 = Dict [''a'' \<mapsto> 1] \<and>
    field_cursor_slice inner_c2 = Dict [''c'' \<mapsto> 2]"
    by (simp add: inner_c1_def inner_c2_def)
  have p: "StreamSlice_partition outer_c1 = [''a'' \<mapsto> 1]"
    by (simp add: outer_c1_def inner_c1_def)
  from h p nested_slice_unwrapping
    [where s = outer_c1 and m = "[''a'' \<mapsto> 1]" and a = inner_c1 and b = inner_c2
       and p = "[''a'' \<mapsto> 1]" and c = "[''c'' \<mapsto> 1]"
       and p' = "[''a'' \<mapsto> 1]" and c' = "[''c'' \<mapsto> 2]"]
  show ?thesis by blast
qed

text \<open>
  Claim C9: a \<open>PageIncrement\<close> constructed with page size \<^verbatim>\<open>None\<close>, after any pages
  it has been fed, returns the incremented page number for every page whose record count
  is not 0 and \<^verbatim>\<open>None\<close> exactly for a record count of 0.
\<close>

theorem page_increment_without_page_size:
  assumes "PageIncrement_init string_eval config PageSizeNone parameters start inject = Inr self0"
    and "self = snd (feed_pages self0 response ns)"
  shows "PageIncrement_next_page_token self response' n last_record =
     (if n = 0 then (None, self) else (Some (page self + 1), self\<lparr>page := page self + 1\<rparr>))"
proof -
  from assms(1) have "resolved_page_size self0 = None"
    by (auto simp: PageIncrement_init_none)
  with assms(2) have "resolved_page_size self = None"
    by (simp add: feed_pages_resolved)
  then show ?thesis
    by (simp add: PageIncrement_next_page_token_def)
qed

theorem page_increment_without_page_size_witness:
  "PageIncrement_init (constant_string_eval PNone) () PageSizeNone () 0 False =
     Inr \<lparr>pi_config = (), pi_page_size = PageSizeNone, start_from_page = 0,
          inject_on_first_request = False, page = 0, resolved_page_size = None\<rparr> \<and>
   PageIncrement_next_page_token
     (snd (feed_pages
        \<lparr>pi_config = (), pi_page_size = PageSizeNone, start_from_page = 0,
          inject_on_first_request = False, page = 0, resolved_page_size = None\<rparr> () [3, 1]))
     () 1 (None :: unit option) =
     (Some 3,
      \<lparr>pi_config = (), pi_page_size = PageSizeNone, start_from_page = 0,
        inject_on_first_request = False, page = 3, resolved_page_size = None\<rparr>)"
proof -
  have h: "PageIncrement_init (constant_string_eval PNone) () PageSizeNone () 0 False =
     Inr \<lparr>pi_config = (), pi_page_size = PageSizeNone, start_from_page = 0,
          inject_on_first_request = False, page = 0, resolved_page_size = None\<rparr>"
    by (simp add: PageIncrement_init_def)
  show ?thesis
    using h page_increment_without_page_size [OF h refl, of "()" "[3, 1]" "()" 1 "None :: unit option"]
    by (simp add: PageIncrement_next_page_token_def)
qed

text \<open>
  Claim C10: a \<open>Record\<close> equals another \<open>Record\<close> exactly when their data are equal,
  whatever their associated slices; and it equals no object that is not a \<open>Record\<close>: not
  a dict, even one holding the record's own entries, not a \<open>StreamSlice\<close>, not any other
  value.
\<close>

theorem record_equality:
  "(Record_eq r (ObjRecord r') \<longleftrightarrow> data r = data r') \<and>
   Record_eq (r\<lparr>associated_slice := s\<rparr>) (ObjRecord (r'\<lparr>associated_slice := s'\<rparr>)) =
     Record_eq r (ObjRecord r') \<and>
   \<not> Record_eq r (ObjDict (data r)) \<and>
   \<not> Record_eq r (ObjDict m) \<and>
   \<not> Record_eq r (ObjStreamSlice t) \<and>
   \<not> Record_eq r (ObjOther v)"
  by simp

end
